theory Spec2Isabelle
  imports Complex_Main
begin

section \<open>Data model\<close>

text \<open>
  The values a cell's \<open>state\<close> property can hold. Cell states are JavaScript
  numbers: integers, \<open>NaN\<close> (which the simulation produces from \<open>0 / 0\<close>) and
  \<open>Infinity\<close> or \<open>-Infinity\<close> (which \<open>JSON.parse\<close> gives for a number of an imported
  pattern that is too large, such as \<open>1e999\<close>). \<open>JSON.parse(JSON.stringify(grid))\<close>
  turns \<open>NaN\<close>, \<open>Infinity\<close> and \<open>-Infinity\<close> into \<open>null\<close>, and reading a pattern entry
  beyond the end of a row yields \<open>undefined\<close>.
\<close>

datatype jsval = Num int | NaN | Null | Undefined | PosInf | NegInf

datatype error = TypeError

record cell =
  state :: jsval
  age :: int
  previousStates :: "int list"
  changed :: bool

type_synonym grid = "cell list list"

record gridSize =
  cols :: nat
  rows :: nat

record rules =
  surviveMin :: int
  surviveMax :: int
  birthMin :: int
  birthMax :: int
  states :: int
  neighborhood :: string
  wrapping :: bool

record colorScheme =
  background :: string
  cellColors :: "string list"
  trailEffect :: bool
  trailLength :: int
  fadeEffect :: bool

text \<open>The initial values of the \<open>rules\<close> and \<open>colorScheme\<close> state of the component.\<close>

definition defaultRules :: rules where
  "defaultRules =
     \<lparr>surviveMin = 2, surviveMax = 3, birthMin = 3, birthMax = 3, states = 1,
      neighborhood = ''moore'', wrapping = True\<rparr>"

definition defaultColorScheme :: colorScheme where
  "defaultColorScheme =
     \<lparr>background = ''#000000'',
      cellColors = [''#4ade80'', ''#2563eb'', ''#ec4899'', ''#f59e0b'', ''#8b5cf6''],
      trailEffect = False, trailLength = 5, fadeEffect = False\<rparr>"

text \<open>A cell with an integer state and no previous states.\<close>

definition cellOf :: "int \<Rightarrow> int \<Rightarrow> bool \<Rightarrow> cell" where
  "cellOf s a ch = \<lparr>state = Num s, age = a, previousStates = [], changed = ch\<rparr>"

section \<open>JavaScript primitives\<close>

text \<open>\<open>v > 0\<close>: \<open>null\<close> converts to 0, \<open>undefined\<close> and \<open>NaN\<close> compare false.\<close>

fun gt0 :: "jsval \<Rightarrow> bool" where
  "gt0 (Num n) = (0 < n)"
| "gt0 NaN = False"
| "gt0 Null = False"
| "gt0 Undefined = False"
| "gt0 PosInf = True"
| "gt0 NegInf = False"

text \<open>
  The conversion of a value to a number (\<open>null\<close> is 0, \<open>undefined\<close> is \<open>NaN\<close>) and the
  sum \<open>a + b\<close> of two values: \<open>NaN\<close> is passed on, \<open>Infinity + -Infinity\<close> is \<open>NaN\<close>, and
  an infinity absorbs every integer.
\<close>

fun toNumber :: "jsval \<Rightarrow> jsval" where
  "toNumber Null = Num 0"
| "toNumber Undefined = NaN"
| "toNumber v = v"

fun numPlus :: "jsval \<Rightarrow> jsval \<Rightarrow> jsval" where
  "numPlus (Num a) (Num b) = Num (a + b)"
| "numPlus (Num a) PosInf = PosInf"
| "numPlus (Num a) NegInf = NegInf"
| "numPlus PosInf (Num b) = PosInf"
| "numPlus PosInf PosInf = PosInf"
| "numPlus NegInf (Num b) = NegInf"
| "numPlus NegInf NegInf = NegInf"
| "numPlus a b = NaN"

definition jsPlus :: "jsval \<Rightarrow> jsval \<Rightarrow> jsval" where
  "jsPlus a b = numPlus (toNumber a) (toNumber b)"

text \<open>The remainder operator \<open>a % b\<close> on integers, \<open>b \<noteq> 0\<close>: the sign follows the dividend.\<close>

definition js_rem :: "int \<Rightarrow> int \<Rightarrow> int" where
  "js_rem a b = sgn a * (\<bar>a\<bar> mod \<bar>b\<bar>)"

text \<open>\<open>Math.round\<close>: the nearest integer, a tie going up.\<close>

definition js_round :: "rat \<Rightarrow> int" where
  "js_round q = \<lfloor>q + 1 / 2\<rfloor>"

text \<open>\<open>Math.round(a / b)\<close> for integers \<open>a\<close> and \<open>b \<noteq> 0\<close>.\<close>

definition roundedQuotient :: "int \<Rightarrow> int \<Rightarrow> int" where
  "roundedQuotient a b = js_round (of_int a / of_int b)"

text \<open>
  \<open>Math.round(a / b)\<close> for a value \<open>a\<close> and an integer \<open>b\<close>: \<open>0 / 0\<close> is \<open>NaN\<close>, another
  integer over 0 is an infinity of its sign, an infinity over \<open>b\<close> is an infinity, and
  \<open>Math.round\<close> passes \<open>NaN\<close> and the infinities on.
\<close>

definition mathRoundDiv :: "jsval \<Rightarrow> int \<Rightarrow> jsval" where
  "mathRoundDiv a b =
     (case toNumber a of
        Num s \<Rightarrow>
          if b = 0 then (if s = 0 then NaN else if 0 < s then PosInf else NegInf)
          else Num (roundedQuotient s b)
      | PosInf \<Rightarrow> if 0 \<le> b then PosInf else NegInf
      | NegInf \<Rightarrow> if 0 \<le> b then NegInf else PosInf
      | _ \<Rightarrow> NaN)"

text \<open>
  \<open>Math.min(q, k)\<close> and \<open>Math.max(k, q)\<close> for a value \<open>q\<close> and an integer \<open>k\<close>: both
  pass \<open>NaN\<close> on.
\<close>

definition mathMin :: "jsval \<Rightarrow> int \<Rightarrow> jsval" where
  "mathMin q k =
     (case toNumber q of
        Num v \<Rightarrow> Num (min v k)
      | PosInf \<Rightarrow> Num k
      | NegInf \<Rightarrow> NegInf
      | _ \<Rightarrow> NaN)"

definition mathMax :: "int \<Rightarrow> jsval \<Rightarrow> jsval" where
  "mathMax k q =
     (case toNumber q of
        Num v \<Rightarrow> Num (max k v)
      | PosInf \<Rightarrow> PosInf
      | NegInf \<Rightarrow> Num k
      | _ \<Rightarrow> NaN)"

text \<open>
  \<open>JSON.parse(JSON.stringify(grid))\<close>: a deep copy in which \<open>NaN\<close>, \<open>Infinity\<close> and
  \<open>-Infinity\<close> become \<open>null\<close>.
\<close>

fun jsonVal :: "jsval \<Rightarrow> jsval" where
  "jsonVal NaN = Null"
| "jsonVal PosInf = Null"
| "jsonVal NegInf = Null"
| "jsonVal v = v"

definition jsonCell :: "cell \<Rightarrow> cell" where
  "jsonCell c = c\<lparr>state := jsonVal (state c)\<rparr>"

definition jsonCopy :: "grid \<Rightarrow> grid" where
  "jsonCopy g = map (map jsonCell) g"

text \<open>
  \<open>grid[y][x]\<close> for a later property read: \<open>None\<close> when the row or the cell is
  \<open>undefined\<close>, so that reading a property of it throws a \<open>TypeError\<close>.
\<close>

definition cellAt :: "grid \<Rightarrow> int \<Rightarrow> int \<Rightarrow> cell option" where
  "cellAt g y x =
     (if 0 \<le> y \<and> y < int (length g) then
        (if 0 \<le> x \<and> x < int (length (g ! nat y)) then Some (g ! nat y ! nat x) else None)
      else None)"

text \<open>A write to the properties of \<open>newGrid[y][x]\<close>.\<close>

definition updateCell :: "grid \<Rightarrow> nat \<Rightarrow> nat \<Rightarrow> (cell \<Rightarrow> cell) \<Rightarrow> grid" where
  "updateCell g y x f = g[y := (g ! y)[x := f (g ! y ! x)]]"

text \<open>A \<open>for\<close> loop over a list of indices whose body may throw.\<close>

fun forEach :: "('i \<Rightarrow> 's \<Rightarrow> error + 's) \<Rightarrow> 'i list \<Rightarrow> 's \<Rightarrow> error + 's" where
  "forEach body [] s = Inr s"
| "forEach body (i # is) s =
     (case body i s of Inl e \<Rightarrow> Inl e | Inr s' \<Rightarrow> forEach body is s')"

section \<open>The step engine: the worker's message handler\<close>

definition directions :: "string \<Rightarrow> (int \<times> int) list" where
  "directions nb =
     (if nb = ''moore''
      then [(-1,-1),(-1,0),(-1,1),(0,-1),(0,1),(1,-1),(1,0),(1,1)]
      else [(-1,0),(0,-1),(0,1),(1,0)])"

text \<open>
  The position read for one direction: wrapped when \<open>wrapping\<close> is set, \<open>None\<close>
  when the loop \<open>continue\<close>s past a position off the grid.
\<close>

definition neighborPos :: "rules \<Rightarrow> gridSize \<Rightarrow> nat \<Rightarrow> nat \<Rightarrow> int \<times> int \<Rightarrow> (int \<times> int) option" where
  "neighborPos r gs y x d =
     (case d of (dy, dx) \<Rightarrow>
        let ny = int y + dy; nx = int x + dx in
        if wrapping r then
          Some (js_rem (ny + int (rows gs)) (int (rows gs)),
                js_rem (nx + int (cols gs)) (int (cols gs)))
        else if ny < 0 \<or> ny \<ge> int (rows gs) \<or> nx < 0 \<or> nx \<ge> int (cols gs) then None
        else Some (ny, nx))"

text \<open>
  One round of the loop over the directions, on \<open>(neighbors, stateSum)\<close>. The sum
  starts at 0 and takes the states that are \<open>> 0\<close>: it is an integer, or \<open>Infinity\<close>
  once a neighbour of state \<open>Infinity\<close> is counted.
\<close>

definition countDirection ::
  "grid \<Rightarrow> rules \<Rightarrow> gridSize \<Rightarrow> nat \<Rightarrow> nat \<Rightarrow> int \<times> int \<Rightarrow> int \<times> jsval \<Rightarrow> error + int \<times> jsval" where
  "countDirection g r gs y x d acc =
     (case acc of (neighbors, stateSum) \<Rightarrow>
        (case neighborPos r gs y x d of
           None \<Rightarrow> Inr (neighbors, stateSum)
         | Some (ny, nx) \<Rightarrow>
             (case cellAt g ny nx of
                None \<Rightarrow> Inl TypeError
              | Some c \<Rightarrow>
                  if gt0 (state c) then Inr (neighbors + 1, jsPlus stateSum (state c))
                  else Inr (neighbors, stateSum))))"

definition countNeighbors ::
  "grid \<Rightarrow> rules \<Rightarrow> gridSize \<Rightarrow> nat \<Rightarrow> nat \<Rightarrow> error + int \<times> jsval" where
  "countNeighbors g r gs y x =
     forEach (countDirection g r gs y x) (directions (neighborhood r)) (0, Num 0)"

text \<open>
  The state of a newborn. With \<open>states > 1\<close> it is
  \<open>Math.max(1, Math.min(Math.round(stateSum / neighbors), states))\<close>; only live
  neighbours add to \<open>stateSum\<close>, so with no neighbour the quotient is \<open>0 / 0 = NaN\<close>,
  which \<open>Math.round\<close>, \<open>Math.min\<close> and \<open>Math.max\<close> all pass on.
\<close>

definition newbornState :: "rules \<Rightarrow> int \<Rightarrow> jsval \<Rightarrow> jsval" where
  "newbornState r neighbors stateSum =
     (if states r > 1 then mathMax 1 (mathMin (mathRoundDiv stateSum neighbors) (states r))
      else Num 1)"

text \<open>
  The rules of the worker for one cell, from the cell of the input grid and its
  counts: \<open>(cellChanged, newState, newAge)\<close>. A live state is a positive integer or
  \<open>Infinity\<close>; \<open>Math.min(Infinity + 1, states)\<close> is \<open>states\<close>.
\<close>

definition applyRules :: "rules \<Rightarrow> colorScheme \<Rightarrow> cell \<Rightarrow> int \<Rightarrow> jsval \<Rightarrow> bool \<times> jsval \<times> int" where
  "applyRules r cs c neighbors stateSum =
     (if gt0 (state c) then
        (if neighbors \<ge> surviveMin r \<and> neighbors \<le> surviveMax r then
           (let nextState = mathMin (jsPlus (state c) (Num 1)) (states r);
                stateChanged = (states r > 1 \<and> nextState \<noteq> state c);
                newState = (if stateChanged then nextState else state c);
                newAge = age c + 1
            in (stateChanged \<or> age c \<noteq> newAge, newState, newAge))
         else if trailEffect cs then
           (if age c + 1 > trailLength cs then (True, Num 0, 0)
            else (True, state c, age c + 1))
         else (True, Num 0, 0))
      else if neighbors \<ge> birthMin r \<and> neighbors \<le> birthMax r then
        (True, newbornState r neighbors stateSum, 0)
      else (False, state c, age c))"

text \<open>The write-back at the end of the loop body, on the cell of \<open>newGrid\<close>.\<close>

definition writeBack :: "bool \<times> jsval \<times> int \<Rightarrow> cell \<Rightarrow> cell" where
  "writeBack res nc =
     (case res of (cellChanged, newState, newAge) \<Rightarrow>
        if cellChanged then nc\<lparr>state := newState, age := newAge, changed := True\<rparr>
        else nc\<lparr>changed := False\<rparr>)"

text \<open>
  The body of the two nested loops, on \<open>(newGrid, changedCells)\<close>; it reads \<open>grid\<close>.
  A cell that \<open>grid\<close> lacks makes \<open>cell.state\<close> throw; every error of the body is a
  \<open>TypeError\<close>, so the order of the reads does not show.
\<close>

definition workerCell ::
  "grid \<Rightarrow> rules \<Rightarrow> gridSize \<Rightarrow> colorScheme \<Rightarrow> nat \<Rightarrow> nat \<Rightarrow>
   grid \<times> (nat \<times> nat) list \<Rightarrow> error + grid \<times> (nat \<times> nat) list" where
  "workerCell g r gs cs y x acc =
     (case acc of (newGrid, changedCells) \<Rightarrow>
        (case cellAt g (int y) (int x) of
           None \<Rightarrow> Inl TypeError
         | Some c \<Rightarrow>
             (case countNeighbors g r gs y x of
                Inl e \<Rightarrow> Inl e
              | Inr (neighbors, stateSum) \<Rightarrow>
                  let res = applyRules r cs c neighbors stateSum in
                  Inr (updateCell newGrid y x (writeBack res),
                       if fst res then changedCells @ [(x, y)] else changedCells))))"

text \<open>
  \<open>self.onmessage\<close>: the new grid and the changed cells, as \<open>(x, y)\<close> pairs in the
  order of the loops.
\<close>

definition onmessage ::
  "grid \<Rightarrow> rules \<Rightarrow> gridSize \<Rightarrow> colorScheme \<Rightarrow> error + grid \<times> (nat \<times> nat) list" where
  "onmessage g r gs cs =
     forEach (\<lambda>y. forEach (\<lambda>x. workerCell g r gs cs y x) [0..<cols gs])
       [0..<rows gs] (jsonCopy g, [])"

section \<open>The step engine: the fallback on the main thread\<close>

text \<open>
  The rules as \<open>computeNextGeneration\<close> applies them when there is no worker: every
  write goes to the cell \<open>nc\<close> of \<open>newGrid\<close> at once, and the age is read back from
  it.
\<close>

definition fallbackRules :: "rules \<Rightarrow> colorScheme \<Rightarrow> cell \<Rightarrow> int \<Rightarrow> jsval \<Rightarrow> cell \<Rightarrow> cell" where
  "fallbackRules r cs c neighbors stateSum nc =
     (if gt0 (state c) then
        (if neighbors \<ge> surviveMin r \<and> neighbors \<le> surviveMax r then
           (let nextState = mathMin (jsPlus (state c) (Num 1)) (states r);
                stateChanged = (states r > 1 \<and> nextState \<noteq> state c);
                nc1 = (if stateChanged then nc\<lparr>state := nextState\<rparr> else nc);
                nc2 = nc1\<lparr>age := age nc1 + 1\<rparr>
            in nc2\<lparr>changed := (stateChanged \<or> age c \<noteq> age nc2)\<rparr>)
         else if trailEffect cs then
           (let nc1 = nc\<lparr>age := age c + 1\<rparr>;
                nc2 = (if age nc1 > trailLength cs then nc1\<lparr>state := Num 0, age := 0\<rparr> else nc1)
            in nc2\<lparr>changed := True\<rparr>)
         else nc\<lparr>state := Num 0, age := 0, changed := True\<rparr>)
      else if neighbors \<ge> birthMin r \<and> neighbors \<le> birthMax r then
        nc\<lparr>state := newbornState r neighbors stateSum, age := 0, changed := True\<rparr>
      else nc\<lparr>changed := False\<rparr>)"

definition fallbackCell ::
  "grid \<Rightarrow> rules \<Rightarrow> gridSize \<Rightarrow> colorScheme \<Rightarrow> nat \<Rightarrow> nat \<Rightarrow> grid \<Rightarrow> error + grid" where
  "fallbackCell g r gs cs y x newGrid =
     (case cellAt g (int y) (int x) of
        None \<Rightarrow> Inl TypeError
      | Some c \<Rightarrow>
          (case countNeighbors g r gs y x of
             Inl e \<Rightarrow> Inl e
           | Inr (neighbors, stateSum) \<Rightarrow>
               Inr (updateCell newGrid y x (fallbackRules r cs c neighbors stateSum))))"

text \<open>
  \<open>computeNextGeneration\<close>: the grid handed to \<open>setGrid\<close>, by the worker's reply when
  there is a worker and by the loops on the main thread otherwise.
\<close>

definition computeNextGeneration ::
  "bool \<Rightarrow> grid \<Rightarrow> rules \<Rightarrow> gridSize \<Rightarrow> colorScheme \<Rightarrow> error + grid" where
  "computeNextGeneration hasWorker g r gs cs =
     (if hasWorker then
        (case onmessage g r gs cs of
           Inl e \<Rightarrow> Inl e
         | Inr (newGrid, changedCells) \<Rightarrow> Inr newGrid)
      else
        forEach (\<lambda>y. forEach (\<lambda>x. fallbackCell g r gs cs y x) [0..<cols gs])
          [0..<rows gs] (jsonCopy g))"

text \<open>The animation loop: each reply of the worker becomes the grid of the next tick.\<close>

fun runGenerations :: "nat \<Rightarrow> grid \<Rightarrow> rules \<Rightarrow> gridSize \<Rightarrow> colorScheme \<Rightarrow> error + grid" where
  "runGenerations 0 g r gs cs = Inr g"
| "runGenerations (Suc n) g r gs cs =
     (case onmessage g r gs cs of
        Inl e \<Rightarrow> Inl e
      | Inr (newGrid, changedCells) \<Rightarrow> runGenerations n newGrid r gs cs)"

section \<open>Editing the grid\<close>

text \<open>\<open>(currentState + 1) % (rules.states + 1)\<close>; a remainder by zero is \<open>NaN\<close>.\<close>

definition clickState :: "jsval \<Rightarrow> int \<Rightarrow> jsval" where
  "clickState v k =
     (case v of
        Num n \<Rightarrow> if k + 1 = 0 then NaN else Num (js_rem (n + 1) (k + 1))
      | Null \<Rightarrow> if k + 1 = 0 then NaN else Num (js_rem 1 (k + 1))
      | _ \<Rightarrow> NaN)"

text \<open>
  \<open>handleCanvasClick\<close>, at the grid position \<open>(x, y)\<close> that \<open>screenToGrid\<close> gives: the
  grid after the handler. The handler writes through a shallow copy of the array of
  rows, so the cell it changes is the cell of the current grid.
\<close>

definition handleCanvasClick ::
  "bool \<Rightarrow> grid \<Rightarrow> gridSize \<Rightarrow> rules \<Rightarrow> int \<Rightarrow> int \<Rightarrow> error + grid" where
  "handleCanvasClick isPanning g gs r x y =
     (if isPanning then Inr g
      else if x \<ge> 0 \<and> x < int (cols gs) \<and> y \<ge> 0 \<and> y < int (rows gs) then
        (case cellAt g y x of
           None \<Rightarrow> Inl TypeError
         | Some c \<Rightarrow>
             Inr (updateCell g (nat y) (nat x)
                    (\<lambda>nc. nc\<lparr>state := clickState (state c) (states r), age := 0, changed := True\<rparr>)))
      else Inr g)"

text \<open>
  \<open>handleCanvasMouseDown\<close>: \<open>panGesture\<close> is \<open>e.button === 2 || e.ctrlKey\<close>.
\<close>

definition handleCanvasMouseDown ::
  "bool \<Rightarrow> bool \<Rightarrow> grid \<Rightarrow> gridSize \<Rightarrow> int \<Rightarrow> int \<Rightarrow> error + grid" where
  "handleCanvasMouseDown panGesture isRunning g gs x y =
     (if panGesture then Inr g
      else if isRunning then Inr g
      else if x \<ge> 0 \<and> x < int (cols gs) \<and> y \<ge> 0 \<and> y < int (rows gs) then
        (case cellAt g y x of
           None \<Rightarrow> Inl TypeError
         | Some c \<Rightarrow>
             Inr (updateCell g (nat y) (nat x)
                    (\<lambda>nc. nc\<lparr>state := (if state c = Num 0 then Num 1 else Num 0),
                              age := 0, changed := True\<rparr>)))
      else Inr g)"

section \<open>Patterns\<close>

definition glider :: "int list list" where
  "glider = [[0, 1, 0], [0, 0, 1], [1, 1, 1]]"






section \<open>Specification-level notions\<close>

text \<open>A grid of exactly \<open>rows \<times> cols\<close> cells.\<close>

definition wellFormed :: "grid \<Rightarrow> gridSize \<Rightarrow> bool" where
  "wellFormed g gs = (length g = rows gs \<and> (\<forall>row \<in> set g. length row = cols gs))"

text \<open>The states of the live neighbours of a cell, read from one grid.\<close>

definition liveNeighbor :: "grid \<Rightarrow> rules \<Rightarrow> gridSize \<Rightarrow> nat \<Rightarrow> nat \<Rightarrow> int \<times> int \<Rightarrow> jsval list" where
  "liveNeighbor g r gs y x d =
     (case neighborPos r gs y x d of
        None \<Rightarrow> []
      | Some (ny, nx) \<Rightarrow>
          if gt0 (state (g ! nat ny ! nat nx)) then [state (g ! nat ny ! nat nx)] else [])"

definition liveNeighbors :: "grid \<Rightarrow> rules \<Rightarrow> gridSize \<Rightarrow> nat \<Rightarrow> nat \<Rightarrow> jsval list" where
  "liveNeighbors g r gs y x =
     concat (map (liveNeighbor g r gs y x) (directions (neighborhood r)))"

definition neighborCount :: "grid \<Rightarrow> rules \<Rightarrow> gridSize \<Rightarrow> nat \<Rightarrow> nat \<Rightarrow> int" where
  "neighborCount g r gs y x = int (length (liveNeighbors g r gs y x))"

definition stateSumOf :: "grid \<Rightarrow> rules \<Rightarrow> gridSize \<Rightarrow> nat \<Rightarrow> nat \<Rightarrow> jsval" where
  "stateSumOf g r gs y x = foldl jsPlus (Num 0) (liveNeighbors g r gs y x)"

text \<open>
  The transition of one cell as a function of the input grid alone, and the
  simultaneous update: that transition at every position of the input grid.
\<close>

definition cellWrite :: "grid \<Rightarrow> rules \<Rightarrow> gridSize \<Rightarrow> colorScheme \<Rightarrow> nat \<Rightarrow> nat \<Rightarrow> cell \<Rightarrow> cell" where
  "cellWrite g r gs cs y x =
     writeBack (applyRules r cs (g ! y ! x) (neighborCount g r gs y x) (stateSumOf g r gs y x))"

definition nextCell :: "grid \<Rightarrow> rules \<Rightarrow> gridSize \<Rightarrow> colorScheme \<Rightarrow> nat \<Rightarrow> nat \<Rightarrow> cell" where
  "nextCell g r gs cs y x = cellWrite g r gs cs y x (jsonCell (g ! y ! x))"

definition simultaneousStep :: "grid \<Rightarrow> rules \<Rightarrow> gridSize \<Rightarrow> colorScheme \<Rightarrow> grid" where
  "simultaneousStep g r gs cs =
     map (\<lambda>y. map (\<lambda>x. nextCell g r gs cs y x) [0..<cols gs]) [0..<rows gs]"

definition changedList :: "grid \<Rightarrow> rules \<Rightarrow> gridSize \<Rightarrow> colorScheme \<Rightarrow> (nat \<times> nat) list" where
  "changedList g r gs cs =
     concat (map (\<lambda>y. concat (map (\<lambda>x. if changed (nextCell g r gs cs y x) then [(x, y)] else [])
       [0..<cols gs])) [0..<rows gs])"

text \<open>
  The same for the fallback, whose writes to the copied cell differ from the worker's
  where the copy has changed a live state (\<open>Infinity\<close> copied as \<open>null\<close>).
\<close>

definition fallbackNextCell :: "grid \<Rightarrow> rules \<Rightarrow> gridSize \<Rightarrow> colorScheme \<Rightarrow> nat \<Rightarrow> nat \<Rightarrow> cell" where
  "fallbackNextCell g r gs cs y x =
     fallbackRules r cs (g ! y ! x) (neighborCount g r gs y x) (stateSumOf g r gs y x)
       (jsonCell (g ! y ! x))"

definition simultaneousFallback :: "grid \<Rightarrow> rules \<Rightarrow> gridSize \<Rightarrow> colorScheme \<Rightarrow> grid" where
  "simultaneousFallback g r gs cs =
     map (\<lambda>y. map (\<lambda>x. fallbackNextCell g r gs cs y x) [0..<cols gs]) [0..<rows gs]"

text \<open>The invariant of a cell: \<open>0 \<le> state \<le> states\<close> and \<open>age \<ge> 0\<close>.\<close>

definition validCell :: "int \<Rightarrow> cell \<Rightarrow> bool" where
  "validCell k c = (case state c of Num s \<Rightarrow> 0 \<le> s \<and> s \<le> k \<and> 0 \<le> age c | _ \<Rightarrow> False)"

definition validGrid :: "int \<Rightarrow> grid \<Rightarrow> bool" where
  "validGrid k g = list_all (list_all (validCell k)) g"

text \<open>
  The value of a pattern at an offset, 0 off the pattern; a grid shows a pattern at
  \<open>(r0, c0)\<close> when every cell has the state the pattern gives it there and every
  other cell is dead.
\<close>

definition patternValue :: "int list list \<Rightarrow> int \<Rightarrow> int \<Rightarrow> int" where
  "patternValue p dy dx =
     (if 0 \<le> dy \<and> dy < int (length p) then
        (if 0 \<le> dx \<and> dx < int (length (p ! nat dy)) then p ! nat dy ! nat dx else 0)
      else 0)"

definition showsPattern :: "int list list \<Rightarrow> int \<Rightarrow> int \<Rightarrow> grid \<Rightarrow> gridSize \<Rightarrow> bool" where
  "showsPattern p r0 c0 g gs =
     (wellFormed g gs \<and>
      (\<forall>y \<in> {0..<rows gs}. \<forall>x \<in> {0..<cols gs}.
         state (g ! y ! x) = Num (patternValue p (int y - r0) (int x - c0))))"





text \<open>
  Conway's rule read on a pattern: the number of positive values around an offset,
  and the value the rule gives the offset next.
\<close>

definition patternNeighbors :: "int list list \<Rightarrow> int \<Rightarrow> int \<Rightarrow> int" where
  "patternNeighbors p dy dx =
     int (length (filter (\<lambda>d. 0 < patternValue p (dy + fst d) (dx + snd d))
                    (directions ''moore'')))"

definition lifeNext :: "int list list \<Rightarrow> int \<Rightarrow> int \<Rightarrow> int" where
  "lifeNext p dy dx =
     (if 0 < patternValue p dy dx then
        (if 2 \<le> patternNeighbors p dy dx \<and> patternNeighbors p dy dx \<le> 3
         then patternValue p dy dx else 0)
      else if patternNeighbors p dy dx = 3 then 1 else patternValue p dy dx)"

text \<open>Whether the cell at \<open>(y, x)\<close> has a neighbour count outside the survive range.\<close>

definition failsSurvival :: "grid \<Rightarrow> rules \<Rightarrow> gridSize \<Rightarrow> nat \<Rightarrow> nat \<Rightarrow> bool" where
  "failsSurvival g r gs y x =
     (case countNeighbors g r gs y x of
        Inl e \<Rightarrow> False
      | Inr (neighbors, stateSum) \<Rightarrow>
          \<not> (neighbors \<ge> surviveMin r \<and> neighbors \<le> surviveMax r))"

section \<open>Arithmetic of the primitives\<close>

lemma js_round_quotient:
  assumes "0 < n"
  shows "js_round (of_int s / of_int n) = (2 * s + n) div (2 * n)"
proof -
  have "(of_int s / of_int n + 1 / 2 :: rat) = of_int (2 * s + n) / of_int (2 * n)"
    using assms by (simp add: field_simps)
  then show ?thesis
    unfolding js_round_def by (simp only: floor_divide_of_int_eq)
qed

lemma roundedQuotient_positive:
  "0 < n \<Longrightarrow> roundedQuotient s n = (2 * s + n) div (2 * n)"
  by (simp add: roundedQuotient_def js_round_quotient)

lemma js_rem_nonneg: "0 \<le> a \<Longrightarrow> 0 < b \<Longrightarrow> js_rem a b = a mod b"
  by (cases "a = 0") (simp_all add: js_rem_def)

section \<open>Loops that write one cell at a time\<close>

lemma fold_update_upt:
  "n \<le> length xs \<Longrightarrow>
   fold (\<lambda>i xs. xs[i := F i (xs ! i)]) [0..<n] xs = map (\<lambda>i. F i (xs ! i)) [0..<n] @ drop n xs"
proof (induction n)
  case 0
  then show ?case by simp
next
  case (Suc n)
  then have n: "n < length xs" by simp
  let ?pre = "map (\<lambda>i. F i (xs ! i)) [0..<n]"
  have len: "length ?pre = n" by simp
  have "fold (\<lambda>i xs. xs[i := F i (xs ! i)]) [0..<Suc n] xs
        = (?pre @ drop n xs)[n := F n ((?pre @ drop n xs) ! n)]"
    using Suc by simp
  also have "(?pre @ drop n xs) ! n = xs ! n"
    using n by (simp add: nth_append)
  also have "(?pre @ drop n xs)[n := F n (xs ! n)] = ?pre @ (drop n xs)[0 := F n (xs ! n)]"
    by (simp add: list_update_append)
  also have "(drop n xs)[0 := F n (xs ! n)] = F n (xs ! n) # drop (Suc n) xs"
    using n by (simp add: Cons_nth_drop_Suc [symmetric])
  finally show ?case by simp
qed

lemma fold_update_all:
  "length xs = n \<Longrightarrow>
   fold (\<lambda>i xs. xs[i := F i (xs ! i)]) [0..<n] xs = map (\<lambda>i. F i (xs ! i)) [0..<n]"
  using fold_update_upt [of n xs F] by simp

lemma forEach_total:
  "(\<And>i s. i \<in> set js \<Longrightarrow> body i s = Inr (f i s)) \<Longrightarrow> forEach body js s = Inr (fold f js s)"
  by (induction js arbitrary: s) simp_all


lemma directions_bound:
  "d \<in> set (directions nb) \<Longrightarrow> - 1 \<le> fst d \<and> fst d \<le> 1 \<and> - 1 \<le> snd d \<and> snd d \<le> 1"
  by (auto simp: directions_def split: if_splits)

lemma neighborPos_range:
  assumes "y < rows gs" "x < cols gs" "d \<in> set (directions nb)"
    and "neighborPos r gs y x d = Some (ny, nx)"
  shows "0 \<le> ny \<and> ny < int (rows gs) \<and> 0 \<le> nx \<and> nx < int (cols gs)"
proof -
  obtain dy dx where d: "d = (dy, dx)" by (cases d)
  from directions_bound [OF assms(3)] d
  have b: "- 1 \<le> dy" "dy \<le> 1" "- 1 \<le> dx" "dx \<le> 1" by simp_all
  show ?thesis
  proof (cases "wrapping r")
    case True
    have "js_rem (int y + dy + int (rows gs)) (int (rows gs)) = (int y + dy + int (rows gs)) mod int (rows gs)"
      using assms(1) b by (intro js_rem_nonneg) simp_all
    then have ry: "0 \<le> js_rem (int y + dy + int (rows gs)) (int (rows gs))
        \<and> js_rem (int y + dy + int (rows gs)) (int (rows gs)) < int (rows gs)"
      using assms(1) by (simp only: pos_mod_sign pos_mod_bound of_nat_0_less_iff)
    have "js_rem (int x + dx + int (cols gs)) (int (cols gs)) = (int x + dx + int (cols gs)) mod int (cols gs)"
      using assms(2) b by (intro js_rem_nonneg) simp_all
    then have rx: "0 \<le> js_rem (int x + dx + int (cols gs)) (int (cols gs))
        \<and> js_rem (int x + dx + int (cols gs)) (int (cols gs)) < int (cols gs)"
      using assms(2) by (simp only: pos_mod_sign pos_mod_bound of_nat_0_less_iff)
    from assms(4) True d have "ny = js_rem (int y + dy + int (rows gs)) (int (rows gs))"
      and "nx = js_rem (int x + dx + int (cols gs)) (int (cols gs))"
      by (simp_all add: neighborPos_def Let_def)
    with ry rx show ?thesis by simp
  next
    case False
    then show ?thesis
      using assms(4) d by (auto simp: neighborPos_def Let_def split: if_splits)
  qed
qed

lemma cellAt_wellFormed:
  "wellFormed g gs \<Longrightarrow> 0 \<le> ny \<Longrightarrow> ny < int (rows gs) \<Longrightarrow> 0 \<le> nx \<Longrightarrow> nx < int (cols gs) \<Longrightarrow>
   cellAt g ny nx = Some (g ! nat ny ! nat nx)"
  by (simp add: cellAt_def wellFormed_def)

lemma countDirection_wellFormed:
  assumes "wellFormed g gs" "y < rows gs" "x < cols gs" "d \<in> set (directions nb)"
  shows "countDirection g r gs y x d (n, s) =
         Inr (n + int (length (liveNeighbor g r gs y x d)), foldl jsPlus s (liveNeighbor g r gs y x d))"
proof (cases "neighborPos r gs y x d")
  case None
  then show ?thesis by (simp add: countDirection_def liveNeighbor_def)
next
  case (Some p)
  obtain ny nx where p: "p = (ny, nx)" by (cases p)
  from neighborPos_range [OF assms(2,3,4)] Some p
  have "0 \<le> ny \<and> ny < int (rows gs) \<and> 0 \<le> nx \<and> nx < int (cols gs)" by simp
  then have "cellAt g ny nx = Some (g ! nat ny ! nat nx)"
    using assms(1) by (simp add: cellAt_wellFormed)
  then show ?thesis
    using Some p by (simp add: countDirection_def liveNeighbor_def)
qed

lemma countLoop_wellFormed:
  assumes "wellFormed g gs" "y < rows gs" "x < cols gs" "set ds \<subseteq> set (directions nb)"
  shows "forEach (countDirection g r gs y x) ds (n, s) =
         Inr (n + int (length (concat (map (liveNeighbor g r gs y x) ds))),
              foldl jsPlus s (concat (map (liveNeighbor g r gs y x) ds)))"
  using assms(4)
proof (induction ds arbitrary: n s)
  case Nil
  then show ?case by simp
next
  case (Cons d ds)
  then have d: "d \<in> set (directions nb)" and ds: "set ds \<subseteq> set (directions nb)" by simp_all
  show ?case
    by (simp add: countDirection_wellFormed [OF assms(1,2,3) d] Cons.IH [OF ds] algebra_simps)
qed

lemma countNeighbors_wellFormed:
  assumes "wellFormed g gs" "y < rows gs" "x < cols gs"
  shows "countNeighbors g r gs y x = Inr (neighborCount g r gs y x, stateSumOf g r gs y x)"
  unfolding countNeighbors_def neighborCount_def stateSumOf_def liveNeighbors_def
  using countLoop_wellFormed [OF assms, of "directions (neighborhood r)" "neighborhood r" r 0 "Num 0"]
  by simp

lemma changed_writeBack: "changed (writeBack res nc) = fst res"
  by (cases res) (simp add: writeBack_def)

lemma workerCell_wellFormed:
  assumes "wellFormed g gs" "y < rows gs" "x < cols gs"
  shows "workerCell g r gs cs y x (ng, ch) =
         Inr (updateCell ng y x (cellWrite g r gs cs y x),
              ch @ (if changed (nextCell g r gs cs y x) then [(x, y)] else []))"
proof -
  have "cellAt g (int y) (int x) = Some (g ! y ! x)"
    using cellAt_wellFormed [OF assms(1), of "int y" "int x"] assms(2,3) by simp
  then show ?thesis
    by (simp add: workerCell_def countNeighbors_wellFormed [OF assms] cellWrite_def
        nextCell_def changed_writeBack Let_def)
qed

lemma fold_row_pair:
  "fold (\<lambda>x (ng, ch). (updateCell ng y x (W x), ch @ C x)) xs (ng, ch) =
   (fold (\<lambda>x ng. updateCell ng y x (W x)) xs ng, ch @ concat (map C xs))"
  by (induction xs arbitrary: ng ch) simp_all

lemma fold_updateCell_row:
  "y < length ng \<Longrightarrow>
   fold (\<lambda>x ng. updateCell ng y x (W x)) xs ng =
   ng[y := fold (\<lambda>x row. row[x := W x (row ! x)]) xs (ng ! y)]"
  by (induction xs arbitrary: ng) (simp_all add: updateCell_def)

lemma rowLoop_wellFormed:
  assumes "wellFormed g gs" "y < rows gs" "y < length ng" "length (ng ! y) = cols gs"
  shows "forEach (\<lambda>x. workerCell g r gs cs y x) [0..<cols gs] (ng, ch) =
         Inr (ng[y := map (\<lambda>x. cellWrite g r gs cs y x (ng ! y ! x)) [0..<cols gs]],
              ch @ concat (map (\<lambda>x. if changed (nextCell g r gs cs y x) then [(x, y)] else [])
                                [0..<cols gs]))"
proof -
  let ?f = "\<lambda>x (ng, ch). (updateCell ng y x (cellWrite g r gs cs y x),
                           ch @ (if changed (nextCell g r gs cs y x) then [(x, y)] else []))"
  have "forEach (\<lambda>x. workerCell g r gs cs y x) [0..<cols gs] (ng, ch)
        = Inr (fold ?f [0..<cols gs] (ng, ch))"
  proof (rule forEach_total)
    fix i s assume "i \<in> set [0..<cols gs]"
    then have "i < cols gs" by simp
    then show "workerCell g r gs cs y i s = Inr (?f i s)"
      using workerCell_wellFormed [OF assms(1,2)] by (cases s) simp
  qed
  then show ?thesis
    by (simp add: fold_row_pair fold_updateCell_row [OF assms(3)] fold_update_all [OF assms(4)])
qed


lemma forEach_append:
  "forEach body (xs @ ys) s =
   (case forEach body xs s of Inl e \<Rightarrow> Inl e | Inr s' \<Rightarrow> forEach body ys s')"
  by (induction xs arbitrary: s) (simp_all split: sum.splits)

lemma gridLoop_wellFormed:
  assumes wf: "wellFormed g gs"
    and len: "length ng = rows gs" and rowlen: "\<forall>y < rows gs. length (ng ! y) = cols gs"
    and n: "n \<le> rows gs"
  shows "forEach (\<lambda>y. forEach (\<lambda>x. workerCell g r gs cs y x) [0..<cols gs]) [0..<n] (ng, ch) =
         Inr (map (\<lambda>y. map (\<lambda>x. cellWrite g r gs cs y x (ng ! y ! x)) [0..<cols gs]) [0..<n]
                @ drop n ng,
              ch @ concat (map (\<lambda>y. concat (map (\<lambda>x. if changed (nextCell g r gs cs y x)
                     then [(x, y)] else []) [0..<cols gs])) [0..<n]))"
  using n
proof (induction n)
  case 0
  then show ?case by simp
next
  case (Suc n)
  then have n: "n < rows gs" by simp
  let ?pre = "map (\<lambda>y. map (\<lambda>x. cellWrite g r gs cs y x (ng ! y ! x)) [0..<cols gs]) [0..<n]"
  let ?mid = "?pre @ drop n ng"
  have mid_n: "?mid ! n = ng ! n"
    using n len by (simp add: nth_append)
  have mid_len: "n < length ?mid"
    using n len by simp
  have mid_row: "length (?mid ! n) = cols gs"
    using mid_n rowlen n by simp
  have upd: "?mid[n := row] = ?pre @ [row] @ drop (Suc n) ng" for row
  proof -
    have d: "drop n ng = ng ! n # drop (Suc n) ng"
      using n len by (simp add: Cons_nth_drop_Suc)
    have "?mid[n := row] = ?pre @ (drop n ng)[0 := row]"
      by (simp add: list_update_append)
    also have "\<dots> = ?pre @ [row] @ drop (Suc n) ng"
      by (subst d) simp
    finally show ?thesis .
  qed
  let ?D = "\<lambda>y. concat (map (\<lambda>x. if changed (nextCell g r gs cs y x) then [(x, y)] else [])
                 [0..<cols gs])"
  let ?body = "\<lambda>y. forEach (\<lambda>x. workerCell g r gs cs y x) [0..<cols gs]"
  have IH: "forEach ?body [0..<n] (ng, ch) = Inr (?mid, ch @ concat (map ?D [0..<n]))"
    using Suc.IH n by simp
  have "forEach ?body [0..<Suc n] (ng, ch) = forEach ?body [n] (?mid, ch @ concat (map ?D [0..<n]))"
    by (simp only: upt_Suc_append [OF le0] forEach_append IH sum.case)
  also have "\<dots> = Inr (?mid[n := map (\<lambda>x. cellWrite g r gs cs n x (?mid ! n ! x)) [0..<cols gs]],
                       (ch @ concat (map ?D [0..<n])) @ ?D n)"
    by (simp only: forEach.simps rowLoop_wellFormed [OF wf n mid_len mid_row] sum.case)
  also have "?mid[n := map (\<lambda>x. cellWrite g r gs cs n x (?mid ! n ! x)) [0..<cols gs]]
             = map (\<lambda>y. map (\<lambda>x. cellWrite g r gs cs y x (ng ! y ! x)) [0..<cols gs]) [0..<Suc n]
               @ drop (Suc n) ng"
    by (simp only: upd mid_n) simp
  also have "(ch @ concat (map ?D [0..<n])) @ ?D n = ch @ concat (map ?D [0..<Suc n])"
    by simp
  finally show ?case .
qed

lemma jsonCopy_nth:
  "y < length g \<Longrightarrow> x < length (g ! y) \<Longrightarrow> jsonCopy g ! y ! x = jsonCell (g ! y ! x)"
  by (simp add: jsonCopy_def)

lemma onmessage_wellFormed:
  assumes "wellFormed g gs"
  shows "onmessage g r gs cs = Inr (simultaneousStep g r gs cs, changedList g r gs cs)"
proof -
  have len: "length (jsonCopy g) = rows gs"
    using assms by (simp add: jsonCopy_def wellFormed_def)
  have rowlen: "\<forall>y < rows gs. length (jsonCopy g ! y) = cols gs"
    using assms by (simp add: jsonCopy_def wellFormed_def)
  have cellw: "cellWrite g r gs cs y x (jsonCopy g ! y ! x) = nextCell g r gs cs y x"
    if "y < rows gs" "x < cols gs" for y x
    using that assms by (simp add: jsonCopy_nth wellFormed_def cellWrite_def nextCell_def)
  have "map (\<lambda>y. map (\<lambda>x. cellWrite g r gs cs y x (jsonCopy g ! y ! x)) [0..<cols gs]) [0..<rows gs]
        = simultaneousStep g r gs cs"
    unfolding simultaneousStep_def by (intro map_cong refl) (simp add: cellw)
  then show ?thesis
    unfolding onmessage_def changedList_def
    using gridLoop_wellFormed [OF assms len rowlen order_refl, of r cs "[]"] len
    by simp
qed

lemma rowLoop_writes:
  assumes body: "\<And>x ng. x < n \<Longrightarrow> body x ng = Inr (updateCell ng y x (W x))"
    and y: "y < length ng" and len: "length (ng ! y) = n"
  shows "forEach body [0..<n] ng = Inr (ng[y := map (\<lambda>x. W x (ng ! y ! x)) [0..<n]])"
proof -
  have "forEach body [0..<n] ng = Inr (fold (\<lambda>x ng. updateCell ng y x (W x)) [0..<n] ng)"
    by (rule forEach_total) (simp add: body)
  then show ?thesis
    by (simp add: fold_updateCell_row [OF y] fold_update_all [OF len])
qed

lemma gridLoop_writes:
  assumes body: "\<And>y x ng. y < m \<Longrightarrow> x < n \<Longrightarrow> body y x ng = Inr (updateCell ng y x (W y x))"
    and len: "length ng = m" and rowlen: "\<forall>y < m. length (ng ! y) = n"
    and k: "k \<le> m"
  shows "forEach (\<lambda>y. forEach (body y) [0..<n]) [0..<k] ng =
         Inr (map (\<lambda>y. map (\<lambda>x. W y x (ng ! y ! x)) [0..<n]) [0..<k] @ drop k ng)"
  using k
proof (induction k)
  case 0
  then show ?case by simp
next
  case (Suc k)
  then have k: "k < m" by simp
  let ?pre = "map (\<lambda>y. map (\<lambda>x. W y x (ng ! y ! x)) [0..<n]) [0..<k]"
  let ?mid = "?pre @ drop k ng"
  let ?loop = "\<lambda>y. forEach (body y) [0..<n]"
  have mid_k: "?mid ! k = ng ! k"
    using k len by (simp add: nth_append)
  have mid_len: "k < length ?mid"
    using k len by simp
  have mid_row: "length (?mid ! k) = n"
    using mid_k rowlen k by simp
  have d: "drop k ng = ng ! k # drop (Suc k) ng"
    using k len by (simp add: Cons_nth_drop_Suc)
  have upd: "?mid[k := row] = ?pre @ [row] @ drop (Suc k) ng" for row
  proof -
    have "?mid[k := row] = ?pre @ (drop k ng)[0 := row]"
      by (simp add: list_update_append)
    also have "\<dots> = ?pre @ [row] @ drop (Suc k) ng"
      by (subst d) simp
    finally show ?thesis .
  qed
  have IH: "forEach ?loop [0..<k] ng = Inr ?mid"
    using Suc.IH k by simp
  have row: "?loop k ?mid = Inr (?mid[k := map (\<lambda>x. W k x (?mid ! k ! x)) [0..<n]])"
    using body [OF k] by (intro rowLoop_writes mid_len mid_row) simp
  have "forEach ?loop [0..<Suc k] ng = forEach ?loop [k] ?mid"
    by (simp only: upt_Suc_append [OF le0] forEach_append IH sum.case)
  also have "\<dots> = Inr (?mid[k := map (\<lambda>x. W k x (?mid ! k ! x)) [0..<n]])"
    by (simp only: forEach.simps row sum.case)
  also have "?mid[k := map (\<lambda>x. W k x (?mid ! k ! x)) [0..<n]]
             = map (\<lambda>y. map (\<lambda>x. W y x (ng ! y ! x)) [0..<n]) [0..<Suc k] @ drop (Suc k) ng"
    by (simp only: upd mid_k) simp
  finally show ?case .
qed

lemmas js_eval = jsPlus_def mathMin_def mathMax_def mathRoundDiv_def

lemma gt0_cases: "gt0 v \<Longrightarrow> (\<exists>s. v = Num s \<and> 0 < s) \<or> v = PosInf"
  by (cases v) simp_all

lemma fallbackRules_writeBack:
  assumes "state c \<noteq> PosInf"
  shows "fallbackRules r cs c n s (jsonCell c) = writeBack (applyRules r cs c n s) (jsonCell c)"
proof (cases "gt0 (state c)")
  case True
  then obtain v where v: "state c = Num v" "0 < v"
    using gt0_cases assms by blast
  then show ?thesis
    by (simp add: fallbackRules_def applyRules_def writeBack_def jsonCell_def js_eval Let_def)
next
  case False
  then show ?thesis
    by (simp add: fallbackRules_def applyRules_def writeBack_def jsonCell_def Let_def)
qed

lemma fallbackCell_wellFormed:
  assumes "wellFormed g gs" "y < rows gs" "x < cols gs"
  shows "fallbackCell g r gs cs y x ng =
         Inr (updateCell ng y x
               (fallbackRules r cs (g ! y ! x) (neighborCount g r gs y x) (stateSumOf g r gs y x)))"
proof -
  have "cellAt g (int y) (int x) = Some (g ! y ! x)"
    using cellAt_wellFormed [OF assms(1), of "int y" "int x"] assms(2,3) by simp
  then show ?thesis
    by (simp add: fallbackCell_def countNeighbors_wellFormed [OF assms])
qed

lemma fallback_wellFormed:
  assumes "wellFormed g gs"
  shows "computeNextGeneration False g r gs cs = Inr (simultaneousFallback g r gs cs)"
proof -
  let ?W = "\<lambda>y x. fallbackRules r cs (g ! y ! x) (neighborCount g r gs y x) (stateSumOf g r gs y x)"
  have len: "length (jsonCopy g) = rows gs"
    using assms by (simp add: jsonCopy_def wellFormed_def)
  have rowlen: "\<forall>y < rows gs. length (jsonCopy g ! y) = cols gs"
    using assms by (simp add: jsonCopy_def wellFormed_def)
  have "forEach (\<lambda>y. forEach (fallbackCell g r gs cs y) [0..<cols gs]) [0..<rows gs] (jsonCopy g)
        = Inr (map (\<lambda>y. map (\<lambda>x. ?W y x (jsonCopy g ! y ! x)) [0..<cols gs]) [0..<rows gs]
               @ drop (rows gs) (jsonCopy g))"
    by (rule gridLoop_writes [OF _ len rowlen order_refl])
      (simp add: fallbackCell_wellFormed [OF assms])
  moreover have "?W y x (jsonCopy g ! y ! x) = fallbackNextCell g r gs cs y x"
    if "y < rows gs" "x < cols gs" for y x
    using that assms
    by (simp add: jsonCopy_nth wellFormed_def fallbackNextCell_def)
  then have "map (\<lambda>y. map (\<lambda>x. ?W y x (jsonCopy g ! y ! x)) [0..<cols gs]) [0..<rows gs]
        = simultaneousFallback g r gs cs"
    unfolding simultaneousFallback_def by (intro map_cong refl) simp
  ultimately show ?thesis
    using len by (simp add: computeNextGeneration_def)
qed

lemma simultaneousFallback_without_Infinity:
  assumes wf: "wellFormed g gs" and fin: "\<forall>row \<in> set g. \<forall>c \<in> set row. state c \<noteq> PosInf"
  shows "simultaneousFallback g r gs cs = simultaneousStep g r gs cs"
proof -
  have "fallbackNextCell g r gs cs y x = nextCell g r gs cs y x"
    if y: "y < rows gs" and x: "x < cols gs" for y x
  proof -
    have "y < length g" "x < length (g ! y)"
      using wf y x nth_mem [of y g] by (simp_all add: wellFormed_def)
    then have "g ! y \<in> set g" "g ! y ! x \<in> set (g ! y)"
      by simp_all
    with fin have "state (g ! y ! x) \<noteq> PosInf"
      by simp
    then show ?thesis
      by (simp add: fallbackNextCell_def nextCell_def cellWrite_def fallbackRules_writeBack)
  qed
  then show ?thesis
    unfolding simultaneousFallback_def simultaneousStep_def
    by (intro map_cong refl) simp
qed

lemma simultaneousStep_nth:
  "y < rows gs \<Longrightarrow> x < cols gs \<Longrightarrow> simultaneousStep g r gs cs ! y ! x = nextCell g r gs cs y x"
  by (simp add: simultaneousStep_def)

lemmas step_eval =
  onmessage_def computeNextGeneration_def workerCell_def fallbackCell_def
  countNeighbors_def countDirection_def neighborPos_def directions_def cellAt_def
  applyRules_def fallbackRules_def newbornState_def roundedQuotient_positive writeBack_def
  updateCell_def jsonCopy_def jsonCell_def Let_def cellOf_def defaultRules_def
  defaultColorScheme_def js_eval

lemmas spec_eval =
  simultaneousStep_def changedList_def nextCell_def cellWrite_def neighborCount_def
  stateSumOf_def liveNeighbors_def liveNeighbor_def neighborPos_def directions_def
  applyRules_def newbornState_def roundedQuotient_positive writeBack_def jsonCell_def Let_def
  cellOf_def defaultRules_def defaultColorScheme_def js_eval

section \<open>Single writes\<close>

lemma length_updateCell: "length (updateCell g y x f) = length g"
  by (simp add: updateCell_def)

lemma length_updateCell_row: "length (updateCell g y x f ! a) = length (g ! a)"
proof (cases "y < length g")
  case True
  then show ?thesis by (cases "a = y") (simp_all add: updateCell_def)
next
  case False
  then have "g[y := (g ! y)[x := f (g ! y ! x)]] = g"
    by (intro list_update_beyond) simp
  then show ?thesis by (simp add: updateCell_def)
qed

lemma updateCell_nth:
  "a < length g \<Longrightarrow> b < length (g ! a) \<Longrightarrow>
   updateCell g y x f ! a ! b = (if a = y \<and> b = x then f (g ! a ! b) else g ! a ! b)"
  by (cases "a = y"; cases "b = x") (simp_all add: updateCell_def)

lemma wellFormed_iff:
  "wellFormed g gs \<longleftrightarrow> length g = rows gs \<and> (\<forall>y < rows gs. length (g ! y) = cols gs)"
proof
  assume wf: "wellFormed g gs"
  then have "length (g ! y) = cols gs" if "y < rows gs" for y
    using that nth_mem [of y g] by (simp add: wellFormed_def)
  with wf show "length g = rows gs \<and> (\<forall>y < rows gs. length (g ! y) = cols gs)"
    by (simp add: wellFormed_def)
next
  assume "length g = rows gs \<and> (\<forall>y < rows gs. length (g ! y) = cols gs)"
  then show "wellFormed g gs"
    by (auto simp: wellFormed_def in_set_conv_nth)
qed

lemma wellFormed_updateCell: "wellFormed g gs \<Longrightarrow> wellFormed (updateCell g y x f) gs"
  by (simp add: wellFormed_iff length_updateCell length_updateCell_row)

section \<open>The trail\<close>

lemma wellFormed_simultaneousStep: "wellFormed (simultaneousStep g r gs cs) gs"
  by (simp add: wellFormed_iff simultaneousStep_def)

lemma onmessage_result:
  assumes "wellFormed g gs" and "onmessage g r gs cs = Inr (newGrid, changedCells)"
  shows "newGrid = simultaneousStep g r gs cs" and "wellFormed newGrid gs"
  using onmessage_wellFormed [OF assms(1), of r cs] assms(2)
  by (simp_all add: wellFormed_simultaneousStep)

lemma failsSurvival_wellFormed:
  assumes "wellFormed g gs" "y < rows gs" "x < cols gs"
  shows "failsSurvival g r gs y x \<longleftrightarrow>
         \<not> (surviveMin r \<le> neighborCount g r gs y x \<and> neighborCount g r gs y x \<le> surviveMax r)"
  by (simp add: failsSurvival_def countNeighbors_wellFormed [OF assms])

lemma trail_step:
  assumes wf: "wellFormed g gs" and y: "y < rows gs" and x: "x < cols gs"
    and trail: "trailEffect cs"
    and alive: "state (g ! y ! x) = Num s" "0 < s"
    and fails: "failsSurvival g r gs y x"
    and step: "onmessage g r gs cs = Inr (newGrid, changedCells)"
  shows "newGrid ! y ! x =
         (if age (g ! y ! x) + 1 > trailLength cs
          then (g ! y ! x)\<lparr>state := Num 0, age := 0, changed := True\<rparr>
          else (g ! y ! x)\<lparr>age := age (g ! y ! x) + 1, changed := True\<rparr>)"
proof -
  have "newGrid ! y ! x = nextCell g r gs cs y x"
    using onmessage_result(1) [OF wf step] y x by (simp add: simultaneousStep_nth)
  moreover have "\<not> (surviveMin r \<le> neighborCount g r gs y x \<and> neighborCount g r gs y x \<le> surviveMax r)"
    using fails failsSurvival_wellFormed [OF wf y x] by simp
  ultimately show ?thesis
    using trail alive
    by (simp add: nextCell_def cellWrite_def applyRules_def writeBack_def jsonCell_def)
qed

lemmas trail_eval = step_eval failsSurvival_def wellFormed_def

section \<open>Stamping a pattern\<close>














section \<open>Conway's rule on a pattern\<close>

lemma offset_cases:
  fixes k :: int
  obtains "k < - 1" | "k = - 1" | "k = 0" | "k = 1" | "k = 2" | "k = 3" | "k = 4" | "4 < k"
  by linarith

lemmas life_eval = lifeNext_def patternNeighbors_def patternValue_def directions_def glider_def

lemma glider_phase1:
  "lifeNext glider dy dx = patternValue [[0,0,0],[1,0,1],[0,1,1],[0,1,0]] dy dx"
  by (cases dy rule: offset_cases; cases dx rule: offset_cases; simp add: life_eval)

lemma glider_phase2:
  "lifeNext [[0,0,0],[1,0,1],[0,1,1],[0,1,0]] dy dx = patternValue [[0,0,0],[0,0,1],[1,0,1],[0,1,1]] dy dx"
  by (cases dy rule: offset_cases; cases dx rule: offset_cases; simp add: life_eval)

lemma glider_phase3:
  "lifeNext [[0,0,0],[0,0,1],[1,0,1],[0,1,1]] dy dx = patternValue [[0,0,0,0],[0,1,0,0],[0,0,1,1],[0,1,1,0]] dy dx"
  by (cases dy rule: offset_cases; cases dx rule: offset_cases; simp add: life_eval)

lemma glider_phase4:
  "lifeNext [[0,0,0,0],[0,1,0,0],[0,0,1,1],[0,1,1,0]] dy dx = patternValue glider (dy - 1) (dx - 1)"
  by (cases dy rule: offset_cases; cases dx rule: offset_cases; simp add: life_eval)


lemma patternValue_support:
  "patternValue p a b \<noteq> 0 \<Longrightarrow>
   0 \<le> a \<and> a < int (length p) \<and> 0 \<le> b \<and> b < int (length (p ! nat a))"
  by (auto simp: patternValue_def split: if_splits)

lemma showsPattern_state:
  "showsPattern p r0 c0 g gs \<Longrightarrow> y < rows gs \<Longrightarrow> x < cols gs \<Longrightarrow>
   state (g ! y ! x) = Num (patternValue p (int y - r0) (int x - c0))"
  by (simp add: showsPattern_def)

lemma liveNeighbor_shows:
  assumes sp: "showsPattern p r0 c0 g gs"
    and box: "0 \<le> r0" "0 \<le> c0" "r0 + int (length p) \<le> int (rows gs)"
      "\<forall>row \<in> set p. c0 + int (length row) \<le> int (cols gs)"
    and y: "y < rows gs" and x: "x < cols gs" and nowrap: "\<not> wrapping r"
  shows "liveNeighbor g r gs y x d =
         (if 0 < patternValue p (int y - r0 + fst d) (int x - c0 + snd d)
          then [Num (patternValue p (int y - r0 + fst d) (int x - c0 + snd d))] else [])"
proof -
  obtain a b where d: "d = (a, b)" by (cases d)
  let ?ny = "int y + a" and ?nx = "int x + b"
  have shift: "int y - r0 + a = ?ny - r0" "int x - c0 + b = ?nx - c0" by simp_all
  show ?thesis
  proof (cases "?ny < 0 \<or> ?ny \<ge> int (rows gs) \<or> ?nx < 0 \<or> ?nx \<ge> int (cols gs)")
    case True
    have "patternValue p (?ny - r0) (?nx - c0) = 0"
    proof (rule ccontr)
      assume "patternValue p (?ny - r0) (?nx - c0) \<noteq> 0"
      from patternValue_support [OF this]
      have s: "0 \<le> ?ny - r0" "?ny - r0 < int (length p)" "0 \<le> ?nx - c0"
        "?nx - c0 < int (length (p ! nat (?ny - r0)))" by simp_all
      then have "p ! nat (?ny - r0) \<in> set p" by simp
      with box(4) have "c0 + int (length (p ! nat (?ny - r0))) \<le> int (cols gs)" by blast
      with s box(1,2,3) True show False by linarith
    qed
    moreover have "neighborPos r gs y x d = None"
      using True nowrap d by (simp add: neighborPos_def Let_def)
    ultimately show ?thesis
      by (simp add: liveNeighbor_def d shift)
  next
    case False
    then have inb: "0 \<le> ?ny" "?ny < int (rows gs)" "0 \<le> ?nx" "?nx < int (cols gs)"
      by simp_all
    have pos: "neighborPos r gs y x d = Some (?ny, ?nx)"
      using False nowrap d by (simp add: neighborPos_def Let_def)
    have "state (g ! nat ?ny ! nat ?nx)
          = Num (patternValue p (int (nat ?ny) - r0) (int (nat ?nx) - c0))"
      using inb by (intro showsPattern_state [OF sp]) simp_all
    then have "state (g ! nat ?ny ! nat ?nx) = Num (patternValue p (?ny - r0) (?nx - c0))"
      using inb by simp
    then show ?thesis
      by (simp add: liveNeighbor_def pos [unfolded d] d shift)
  qed
qed

lemma length_concat_singletons:
  "length (concat (map (\<lambda>d. if c d then [v d] else []) ds)) = length (filter c ds)"
  by (induction ds) simp_all

lemma neighborCount_shows:
  assumes "showsPattern p r0 c0 g gs"
    and "0 \<le> r0" "0 \<le> c0" "r0 + int (length p) \<le> int (rows gs)"
      "\<forall>row \<in> set p. c0 + int (length row) \<le> int (cols gs)"
    and "y < rows gs" and "x < cols gs" and "\<not> wrapping r" and "neighborhood r = ''moore''"
  shows "neighborCount g r gs y x = patternNeighbors p (int y - r0) (int x - c0)"
proof -
  have "liveNeighbor g r gs y x =
        (\<lambda>d. if 0 < patternValue p (int y - r0 + fst d) (int x - c0 + snd d)
             then [Num (patternValue p (int y - r0 + fst d) (int x - c0 + snd d))] else [])"
    by (intro ext liveNeighbor_shows [OF assms(1-8)])
  then show ?thesis
    by (simp only: neighborCount_def liveNeighbors_def patternNeighbors_def assms(9)
        length_concat_singletons)
qed

lemma conway_nextCell:
  assumes "surviveMin r = 2" "surviveMax r = 3" "birthMin r = 3" "birthMax r = 3" "states r = 1"
    and "\<not> trailEffect cs" and "state (g ! y ! x) = Num v"
  shows "state (nextCell g r gs cs y x) =
         Num (if 0 < v then (if 2 \<le> neighborCount g r gs y x \<and> neighborCount g r gs y x \<le> 3
                             then v else 0)
              else if neighborCount g r gs y x = 3 then 1 else v)"
  using assms
  by (simp add: nextCell_def cellWrite_def applyRules_def writeBack_def newbornState_def
      jsonCell_def js_eval Let_def)

lemma conway_step_shows:
  assumes rules: "surviveMin r = 2" "surviveMax r = 3" "birthMin r = 3" "birthMax r = 3"
      "states r = 1" "neighborhood r = ''moore''" "\<not> wrapping r"
    and notrail: "\<not> trailEffect cs"
    and sp: "showsPattern p r0 c0 g gs"
    and box: "0 \<le> r0" "0 \<le> c0" "r0 + int (length p) \<le> int (rows gs)"
      "\<forall>row \<in> set p. c0 + int (length row) \<le> int (cols gs)"
    and nxt: "\<And>dy dx. lifeNext p dy dx = patternValue p' (dy - a) (dx - b)"
  shows "showsPattern p' (r0 + a) (c0 + b) (simultaneousStep g r gs cs) gs"
proof -
  have "state (simultaneousStep g r gs cs ! y ! x)
        = Num (patternValue p' (int y - (r0 + a)) (int x - (c0 + b)))"
    if y: "y < rows gs" and x: "x < cols gs" for y x
  proof -
    have n: "neighborCount g r gs y x = patternNeighbors p (int y - r0) (int x - c0)"
      using sp box y x rules(7,6) by (rule neighborCount_shows)
    have st: "state (g ! y ! x) = Num (patternValue p (int y - r0) (int x - c0))"
      using sp y x by (rule showsPattern_state)
    have "state (nextCell g r gs cs y x) = Num (lifeNext p (int y - r0) (int x - c0))"
      by (simp only: conway_nextCell [OF rules(1-5) notrail st] n lifeNext_def)
    also have "lifeNext p (int y - r0) (int x - c0)
               = patternValue p' (int y - (r0 + a)) (int x - (c0 + b))"
      by (simp add: nxt diff_diff_eq)
    finally show ?thesis
      using y x by (simp add: simultaneousStep_nth)
  qed
  then show ?thesis
    by (simp add: showsPattern_def wellFormed_simultaneousStep)
qed

lemma runGenerations_Suc_wellFormed:
  "wellFormed g gs \<Longrightarrow>
   runGenerations (Suc n) g r gs cs = runGenerations n (simultaneousStep g r gs cs) r gs cs"
  by (simp add: onmessage_wellFormed)

lemma showsPattern_wellFormed: "showsPattern p r0 c0 g gs \<Longrightarrow> wellFormed g gs"
  by (simp add: showsPattern_def)

section \<open>The cell invariant\<close>

lemma validGrid_nth:
  "validGrid k g \<Longrightarrow> y < length g \<Longrightarrow> x < length (g ! y) \<Longrightarrow> validCell k (g ! y ! x)"
  by (simp add: validGrid_def list_all_length)

lemma neighborCount_nonneg: "0 \<le> neighborCount g r gs y x"
  by (simp add: neighborCount_def)

lemma foldl_jsPlus_live:
  "(\<exists>s. a = Num s) \<or> a = PosInf \<Longrightarrow> \<forall>v \<in> set vs. gt0 v \<Longrightarrow>
   (\<exists>s. foldl jsPlus a vs = Num s) \<or> foldl jsPlus a vs = PosInf"
proof (induction vs arbitrary: a)
  case Nil
  then show ?case by simp
next
  case (Cons v vs)
  have "gt0 v"
    using Cons.prems(2) by simp
  then have "(\<exists>s. v = Num s) \<or> v = PosInf"
    using gt0_cases by blast
  with Cons.prems(1) have "(\<exists>s. jsPlus a v = Num s) \<or> jsPlus a v = PosInf"
    by (auto simp: jsPlus_def)
  then have "(\<exists>s. foldl jsPlus (jsPlus a v) vs = Num s) \<or> foldl jsPlus (jsPlus a v) vs = PosInf"
    using Cons.prems(2) by (intro Cons.IH) simp_all
  then show ?case by simp
qed

lemma liveNeighbors_gt0: "\<forall>v \<in> set (liveNeighbors g r gs y x). gt0 v"
  by (auto simp: liveNeighbors_def liveNeighbor_def split: option.splits if_splits)

lemma stateSumOf_cases:
  "(\<exists>s. stateSumOf g r gs y x = Num s) \<or> stateSumOf g r gs y x = PosInf"
  unfolding stateSumOf_def by (intro foldl_jsPlus_live liveNeighbors_gt0) simp

lemma newbornState_valid:
  assumes "1 \<le> states r" and "(\<exists>s. sm = Num s) \<or> sm = PosInf"
    and "1 < states r \<longrightarrow> 0 < n"
  shows "\<exists>v. newbornState r n sm = Num v \<and> 1 \<le> v \<and> v \<le> states r"
  using assms by (auto simp: newbornState_def js_eval)

lemma nextCell_valid:
  assumes "1 \<le> states r" and "validCell (states r) (g ! y ! x)"
    and "\<not> (birthMin r \<le> 0 \<and> 0 \<le> birthMax r \<and> 1 < states r)"
  shows "validCell (states r) (nextCell g r gs cs y x)"
proof -
  obtain s where s: "state (g ! y ! x) = Num s" "0 \<le> s" "s \<le> states r" "0 \<le> age (g ! y ! x)"
    using assms(2) by (auto simp: validCell_def split: jsval.splits)
  have n: "0 \<le> neighborCount g r gs y x"
    by (rule neighborCount_nonneg)
  show ?thesis
  proof (cases "0 < s")
    case True
    then show ?thesis
      using s assms(1)
      by (simp add: nextCell_def cellWrite_def applyRules_def writeBack_def jsonCell_def
          validCell_def js_eval Let_def)
  next
    case False
    show ?thesis
    proof (cases "birthMin r \<le> neighborCount g r gs y x
        \<and> neighborCount g r gs y x \<le> birthMax r")
      case birth: True
      have "1 < states r \<longrightarrow> 0 < neighborCount g r gs y x"
        using birth assms(3) n by auto
      then obtain v where v: "newbornState r (neighborCount g r gs y x) (stateSumOf g r gs y x)
            = Num v" "1 \<le> v" "v \<le> states r"
        using newbornState_valid [OF assms(1) stateSumOf_cases] by blast
      show ?thesis
        using False s birth v
        by (simp add: nextCell_def cellWrite_def applyRules_def writeBack_def jsonCell_def
            validCell_def Let_def)
    next
      case nobirth: False
      then show ?thesis
        using False s assms(1)
        by (auto simp: nextCell_def cellWrite_def applyRules_def writeBack_def jsonCell_def
            validCell_def Let_def)
    qed
  qed
qed

lemma step_keeps_valid_cells:
  assumes "wellFormed g gs" and "1 \<le> states r" and "validGrid (states r) g"
    and "\<not> (birthMin r \<le> 0 \<and> 0 \<le> birthMax r \<and> 1 < states r)"
    and "onmessage g r gs cs = Inr (newGrid, changedCells)"
  shows "validGrid (states r) newGrid"
proof -
  have "validCell (states r) (nextCell g r gs cs y x)" if "y < rows gs" "x < cols gs" for y x
  proof -
    have "validCell (states r) (g ! y ! x)"
      using assms(1,3) that by (intro validGrid_nth) (simp_all add: wellFormed_iff)
    then show ?thesis
      using assms(2,4) by (intro nextCell_valid)
  qed
  then have "validGrid (states r) (simultaneousStep g r gs cs)"
    by (simp add: validGrid_def simultaneousStep_def list_all_length)
  then show ?thesis
    using onmessage_result(1) [OF assms(1,5)] by simp
qed

section \<open>Claims\<close>

text \<open>
  C1. On a grid of \<open>rows \<times> cols\<close> cells, the two nested loops of the worker, which
  write \<open>newGrid\<close> one cell at a time, return the simultaneous update of the input
  grid: every cell of the result is the transition of that cell computed from the
  input grid alone, and the changed cells are listed in the order of the loops. The
  loops of the fallback return the simultaneous update by the fallback's own
  transition, which is the worker's on every grid with no cell of state \<open>Infinity\<close>.
\<close>

theorem step_is_simultaneous:
  assumes "wellFormed g gs"
  shows "onmessage g r gs cs = Inr (simultaneousStep g r gs cs, changedList g r gs cs)
       \<and> computeNextGeneration False g r gs cs = Inr (simultaneousFallback g r gs cs)
       \<and> ((\<forall>row \<in> set g. \<forall>c \<in> set row. state c \<noteq> PosInf) \<longrightarrow>
            computeNextGeneration False g r gs cs = Inr (simultaneousStep g r gs cs))"
  using onmessage_wellFormed [OF assms] fallback_wellFormed [OF assms]
    simultaneousFallback_without_Infinity [OF assms]
  by simp

theorem step_is_simultaneous_witness:
  "wellFormed [[cellOf 0 0 False, cellOf 1 0 False, cellOf 0 0 False],
               [cellOf 0 0 False, cellOf 1 0 False, cellOf 0 0 False],
               [cellOf 0 0 False, cellOf 1 0 False, cellOf 0 0 False]] \<lparr>cols = 3, rows = 3\<rparr>
   \<and> onmessage [[cellOf 0 0 False, cellOf 1 0 False, cellOf 0 0 False],
                 [cellOf 0 0 False, cellOf 1 0 False, cellOf 0 0 False],
                 [cellOf 0 0 False, cellOf 1 0 False, cellOf 0 0 False]]
        (defaultRules\<lparr>wrapping := False\<rparr>) \<lparr>cols = 3, rows = 3\<rparr> defaultColorScheme
      = Inr ([[cellOf 0 0 False, cellOf 0 0 True, cellOf 0 0 False],
              [cellOf 1 0 True, cellOf 1 1 True, cellOf 1 0 True],
              [cellOf 0 0 False, cellOf 0 0 True, cellOf 0 0 False]],
             [(1, 0), (0, 1), (1, 1), (2, 1), (1, 2)])
   \<and> computeNextGeneration False
        [[cellOf 0 0 False, cellOf 1 0 False, cellOf 0 0 False],
         [cellOf 0 0 False, cellOf 1 0 False, cellOf 0 0 False],
         [cellOf 0 0 False, cellOf 1 0 False, cellOf 0 0 False]]
        (defaultRules\<lparr>wrapping := False\<rparr>) \<lparr>cols = 3, rows = 3\<rparr> defaultColorScheme
      = Inr [[cellOf 0 0 False, cellOf 0 0 True, cellOf 0 0 False],
             [cellOf 1 0 True, cellOf 1 1 True, cellOf 1 0 True],
             [cellOf 0 0 False, cellOf 0 0 True, cellOf 0 0 False]]"
  using step_is_simultaneous [of
      "[[cellOf 0 0 False, cellOf 1 0 False, cellOf 0 0 False],
        [cellOf 0 0 False, cellOf 1 0 False, cellOf 0 0 False],
        [cellOf 0 0 False, cellOf 1 0 False, cellOf 0 0 False]]"
      "\<lparr>cols = 3, rows = 3\<rparr>" "defaultRules\<lparr>wrapping := False\<rparr>" defaultColorScheme]
  by (simp add: wellFormed_def spec_eval simultaneousFallback_def fallbackNextCell_def
      fallbackRules_def eval_nat_numeral)

text \<open>
  C2. With survive 2 to 3, birth 3 to 3, one state, the Moore neighbourhood, no
  wrapping and no trail: a grid that shows the glider seed at \<open>(r0, c0)\<close> and is dead
  everywhere else, with the four rows and four columns from \<open>(r0, c0)\<close> inside the
  grid, shows after four steps the same seed at \<open>(r0 + 1, c0 + 1)\<close>, every other cell
  dead.
\<close>

theorem glider_moves_diagonally:
  assumes rules: "surviveMin r = 2" "surviveMax r = 3" "birthMin r = 3" "birthMax r = 3"
      "states r = 1" "neighborhood r = ''moore''" "\<not> wrapping r"
    and notrail: "\<not> trailEffect cs"
    and start: "showsPattern glider r0 c0 g gs"
    and room: "0 \<le> r0" "0 \<le> c0" "r0 + 4 \<le> int (rows gs)" "c0 + 4 \<le> int (cols gs)"
  shows "\<exists>g4. runGenerations 4 g r gs cs = Inr g4 \<and> showsPattern glider (r0 + 1) (c0 + 1) g4 gs"
proof -
  let ?S = "\<lambda>g. simultaneousStep g r gs cs"
  let ?p1 = "[[0,0,0],[1,0,1],[0,1,1],[0,1,0]] :: int list list"
  let ?p2 = "[[0,0,0],[0,0,1],[1,0,1],[0,1,1]] :: int list list"
  let ?p3 = "[[0,0,0,0],[0,1,0,0],[0,0,1,1],[0,1,1,0]] :: int list list"
  have s1: "showsPattern ?p1 r0 c0 (?S g) gs"
    using conway_step_shows [OF rules notrail start room(1,2), of ?p1 0 0] room(3,4)
    by (simp add: glider_phase1) (simp add: glider_def)
  have s2: "showsPattern ?p2 r0 c0 (?S (?S g)) gs"
    using conway_step_shows [OF rules notrail s1 room(1,2), of ?p2 0 0] room(3,4)
    by (simp add: glider_phase2)
  have s3: "showsPattern ?p3 r0 c0 (?S (?S (?S g))) gs"
    using conway_step_shows [OF rules notrail s2 room(1,2), of ?p3 0 0] room(3,4)
    by (simp add: glider_phase3)
  have s4: "showsPattern glider (r0 + 1) (c0 + 1) (?S (?S (?S (?S g)))) gs"
    using conway_step_shows [OF rules notrail s3 room(1,2), of glider 1 1] room(3,4)
    by (simp add: glider_phase4)
  have four: "(4::nat) = Suc (Suc (Suc (Suc 0)))"
    by simp
  have "runGenerations 4 g r gs cs = Inr (?S (?S (?S (?S g))))"
    by (simp only: four runGenerations.simps(1)
        runGenerations_Suc_wellFormed [OF showsPattern_wellFormed [OF start]]
        runGenerations_Suc_wellFormed [OF showsPattern_wellFormed [OF s1]]
        runGenerations_Suc_wellFormed [OF showsPattern_wellFormed [OF s2]]
        runGenerations_Suc_wellFormed [OF showsPattern_wellFormed [OF s3]])
  with s4 show ?thesis by blast
qed

theorem glider_moves_diagonally_witness:
  "showsPattern glider 1 1
     (map (map (\<lambda>s. cellOf s 0 False))
        [[0,0,0,0,0],[0,0,1,0,0],[0,0,0,1,0],[0,1,1,1,0],[0,0,0,0,0]])
     \<lparr>cols = 5, rows = 5\<rparr>
   \<and> (\<exists>g4. runGenerations 4
          (map (map (\<lambda>s. cellOf s 0 False))
             [[0,0,0,0,0],[0,0,1,0,0],[0,0,0,1,0],[0,1,1,1,0],[0,0,0,0,0]])
          (defaultRules\<lparr>wrapping := False\<rparr>) \<lparr>cols = 5, rows = 5\<rparr> defaultColorScheme
        = Inr g4
      \<and> showsPattern glider 2 2 g4 \<lparr>cols = 5, rows = 5\<rparr>
      \<and> map (map state) g4 = map (map Num)
            [[0,0,0,0,0],[0,0,0,0,0],[0,0,0,1,0],[0,0,0,0,1],[0,0,1,1,1]])"
proof -
  let ?g = "map (map (\<lambda>s. cellOf s 0 False))
        [[0,0,0,0,0],[0,0,1,0,0],[0,0,0,1,0],[0,1,1,1,0],[0,0,0,0,0]]"
  let ?gs = "\<lparr>cols = 5, rows = 5\<rparr>"
  let ?r = "defaultRules\<lparr>wrapping := False\<rparr>"
  have start: "showsPattern glider 1 1 ?g ?gs"
    by code_simp
  have "\<exists>g4. runGenerations 4 ?g ?r ?gs defaultColorScheme = Inr g4
          \<and> showsPattern glider (1 + 1) (1 + 1) g4 ?gs"
    by (rule glider_moves_diagonally [OF _ _ _ _ _ _ _ _ start])
      (simp_all add: defaultRules_def defaultColorScheme_def)
  then obtain g4 where run: "runGenerations 4 ?g ?r ?gs defaultColorScheme = Inr g4"
    and shows4: "showsPattern glider 2 2 g4 ?gs"
    by auto
  have "case runGenerations 4 ?g ?r ?gs defaultColorScheme of
          Inl e \<Rightarrow> False
        | Inr g4 \<Rightarrow> map (map state) g4 = map (map Num)
            [[0,0,0,0,0],[0,0,0,0,0],[0,0,0,1,0],[0,0,0,0,1],[0,0,1,1,1]]"
    by code_simp
  with run have "map (map state) g4 = map (map Num)
            [[0,0,0,0,0],[0,0,0,0,0],[0,0,0,1,0],[0,0,0,0,1],[0,0,1,1,1]]"
    by simp
  with start run shows4 show ?thesis by blast
qed

text \<open>
  C3. The invariant \<open>0 \<le> state \<le> states\<close>, \<open>age \<ge> 0\<close> is not preserved when 0 is in
  the birth range and \<open>states > 1\<close>: from a valid grid of two dead cells, with
  \<open>states = 2\<close>, the worker returns a grid whose cells have the state \<open>NaN\<close>. In
  every other configuration with \<open>states \<ge> 1\<close> the invariant is preserved
  (\<open>step_keeps_valid_cells\<close>).
\<close>

theorem invariant_broken_by_birth_without_neighbors:
  "validGrid 2 [[cellOf 0 0 False, cellOf 0 0 False]]
   \<and> onmessage [[cellOf 0 0 False, cellOf 0 0 False]]
        \<lparr>surviveMin = 2, surviveMax = 3, birthMin = 0, birthMax = 0, states = 2,
         neighborhood = ''von-neumann'', wrapping = True\<rparr>
        \<lparr>cols = 2, rows = 1\<rparr> defaultColorScheme
      = Inr ([[\<lparr>state = NaN, age = 0, previousStates = [], changed = True\<rparr>,
               \<lparr>state = NaN, age = 0, previousStates = [], changed = True\<rparr>]], [(0, 0), (1, 0)])
   \<and> \<not> validGrid 2 [[\<lparr>state = NaN, age = 0, previousStates = [], changed = True\<rparr>,
                       \<lparr>state = NaN, age = 0, previousStates = [], changed = True\<rparr>]]"
  by (simp add: validGrid_def validCell_def step_eval js_rem_def eval_nat_numeral)

text \<open>
  C4. A dead cell of a \<open>rows \<times> cols\<close> grid whose count of live neighbours is
  positive and in the birth range, with \<open>states > 1\<close>: in the grid the worker returns
  its state is the rounded average of its live neighbours' states, clamped to
  \<open>[1, states]\<close> (which is \<open>states\<close> when the sum is \<open>Infinity\<close>). In particular two
  live neighbours with states 1 and 3 give a newborn of state 2 when \<open>states = 5\<close>.
\<close>

theorem newborn_state_is_rounded_average:
  assumes "wellFormed g gs" and "y < rows gs" and "x < cols gs"
    and "countNeighbors g r gs y x = Inr (neighbors, stateSum)"
    and "\<not> gt0 (state (g ! y ! x))"
    and "birthMin r \<le> neighbors" and "neighbors \<le> birthMax r"
    and "1 < states r" and "0 < neighbors"
    and "onmessage g r gs cs = Inr (newGrid, changedCells)"
  shows "(\<forall>s. stateSum = Num s \<longrightarrow>
            state (newGrid ! y ! x) =
              Num (max 1 (min (js_round (of_int s / of_int neighbors)) (states r))))
       \<and> (stateSum = PosInf \<longrightarrow> state (newGrid ! y ! x) = Num (states r))
       \<and> (neighbors = 2 \<and> stateSum = Num (1 + 3) \<and> states r = 5 \<longrightarrow>
            state (newGrid ! y ! x) = Num 2)"
proof -
  have counts: "neighborCount g r gs y x = neighbors" "stateSumOf g r gs y x = stateSum"
    using countNeighbors_wellFormed [OF assms(1,2,3), of r] assms(4) by simp_all
  have "newGrid = simultaneousStep g r gs cs"
    using onmessage_wellFormed [OF assms(1), of r cs] assms(10) by simp
  then have "newGrid ! y ! x = nextCell g r gs cs y x"
    using assms(2,3) by (simp add: simultaneousStep_nth)
  then have st: "state (newGrid ! y ! x)
      = mathMax 1 (mathMin (mathRoundDiv stateSum neighbors) (states r))"
    using assms(5-9)
    by (simp add: nextCell_def cellWrite_def counts applyRules_def writeBack_def newbornState_def)
  have fin: "state (newGrid ! y ! x) =
      Num (max 1 (min (js_round (of_int s / of_int neighbors)) (states r)))"
    if "stateSum = Num s" for s
    using st that assms(9) by (simp add: js_eval roundedQuotient_def)
  have inf: "state (newGrid ! y ! x) = Num (states r)" if "stateSum = PosInf"
    using st that assms(8,9) by (simp add: js_eval)
  have "roundedQuotient (1 + 3) 2 = 2"
    by (simp add: roundedQuotient_positive)
  then have "state (newGrid ! y ! x) = Num 2"
    if "neighbors = 2" "stateSum = Num (1 + 3)" "states r = 5"
    using fin [OF that(2)] that(1,3) by (simp add: roundedQuotient_def)
  with fin inf show ?thesis by blast
qed

theorem newborn_state_is_rounded_average_witness:
  "\<exists>newGrid changedCells.
      onmessage [[cellOf 1 0 False, cellOf 0 0 False, cellOf 3 0 False]]
        \<lparr>surviveMin = 2, surviveMax = 3, birthMin = 2, birthMax = 2, states = 5,
         neighborhood = ''moore'', wrapping = False\<rparr>
        \<lparr>cols = 3, rows = 1\<rparr> defaultColorScheme = Inr (newGrid, changedCells)
      \<and> countNeighbors [[cellOf 1 0 False, cellOf 0 0 False, cellOf 3 0 False]]
        \<lparr>surviveMin = 2, surviveMax = 3, birthMin = 2, birthMax = 2, states = 5,
         neighborhood = ''moore'', wrapping = False\<rparr>
        \<lparr>cols = 3, rows = 1\<rparr> 0 1 = Inr (2, Num (1 + 3))
      \<and> state (newGrid ! 0 ! 1) = Num 2"
proof -
  let ?g = "[[cellOf 1 0 False, cellOf 0 0 False, cellOf 3 0 False]]"
  let ?r = "\<lparr>surviveMin = 2, surviveMax = 3, birthMin = 2, birthMax = 2, states = 5,
         neighborhood = ''moore'', wrapping = False\<rparr>"
  let ?gs = "\<lparr>cols = 3, rows = 1\<rparr>"
  have wf: "wellFormed ?g ?gs" by (simp add: wellFormed_def)
  have cn: "countNeighbors ?g ?r ?gs 0 1 = Inr (2, Num (1 + 3))"
    by (simp add: step_eval)
  obtain newGrid changedCells
    where om: "onmessage ?g ?r ?gs defaultColorScheme = Inr (newGrid, changedCells)"
    using onmessage_wellFormed [OF wf] by blast
  have "state (newGrid ! 0 ! 1) = Num 2"
    using newborn_state_is_rounded_average [OF wf _ _ cn _ _ _ _ _ om, THEN conjunct2, THEN conjunct2]
    by (simp add: cellOf_def)
  with om cn show ?thesis by blast
qed

text \<open>
  C5. A dead cell with no live neighbour, 0 in the birth range and \<open>states > 1\<close>: the
  claim has it born at state exactly 1. Neither implementation special-cases the
  division: on a single dead cell with \<open>birthMin = 0\<close> and \<open>states = 2\<close>, the worker
  and the fallback both write \<open>NaN\<close> as the state of the newborn.
\<close>

theorem birth_without_neighbors_writes_NaN:
  "onmessage [[\<lparr>state = Num 0, age = 0, previousStates = [], changed = False\<rparr>]]
     \<lparr>surviveMin = 2, surviveMax = 3, birthMin = 0, birthMax = 3, states = 2,
      neighborhood = ''moore'', wrapping = False\<rparr>
     \<lparr>cols = 1, rows = 1\<rparr>
     \<lparr>background = ''#000000'', cellColors = [], trailEffect = False, trailLength = 5,
      fadeEffect = False\<rparr>
   = Inr ([[\<lparr>state = NaN, age = 0, previousStates = [], changed = True\<rparr>]], [(0, 0)])
   \<and> computeNextGeneration False
       [[\<lparr>state = Num 0, age = 0, previousStates = [], changed = False\<rparr>]]
       \<lparr>surviveMin = 2, surviveMax = 3, birthMin = 0, birthMax = 3, states = 2,
        neighborhood = ''moore'', wrapping = False\<rparr>
       \<lparr>cols = 1, rows = 1\<rparr>
       \<lparr>background = ''#000000'', cellColors = [], trailEffect = False, trailLength = 5,
        fadeEffect = False\<rparr>
     = Inr [[\<lparr>state = NaN, age = 0, previousStates = [], changed = True\<rparr>]]"
  by (simp add: onmessage_def computeNextGeneration_def workerCell_def fallbackCell_def
      countNeighbors_def countDirection_def neighborPos_def directions_def cellAt_def
      applyRules_def fallbackRules_def newbornState_def writeBack_def updateCell_def
      jsonCopy_def jsonCell_def js_eval Let_def)

text \<open>
  C6. The trail. The claim has a cell that dies at tick \<open>T\<close> keep a nonzero state
  through \<open>T + 3\<close> and clear at \<open>T + 4\<close>. The dying branch counts on the age the cell
  already has: it clears the cell as soon as \<open>age + 1 > trailLength\<close>. Amended: with
  \<open>trailEffect\<close> set and \<open>trailLength = 3\<close>, a cell that is alive with age 0 at tick
  \<open>T - 1\<close> (grid \<open>g0\<close>) and whose neighbour count is outside the survive range at tick
  \<open>T\<close> and at each of the next three steps keeps its state, unchanged, at the ticks
  \<open>T\<close>, \<open>T + 1\<close> and \<open>T + 2\<close> (grids \<open>g1\<close>, \<open>g2\<close>, \<open>g3\<close>) with the ages 1, 2 and 3,
  and its state and age both clear to 0 at tick \<open>T + 3\<close> (grid \<open>g4\<close>).
\<close>

theorem trail_clears_after_trailLength_steps:
  assumes "trailEffect cs" and "trailLength cs = 3"
    and "wellFormed g0 gs" and "y < rows gs" and "x < cols gs"
    and "state (g0 ! y ! x) = Num s" and "0 < s" and "age (g0 ! y ! x) = 0"
    and "onmessage g0 r gs cs = Inr (g1, ch1)" and "failsSurvival g0 r gs y x"
    and "onmessage g1 r gs cs = Inr (g2, ch2)" and "failsSurvival g1 r gs y x"
    and "onmessage g2 r gs cs = Inr (g3, ch3)" and "failsSurvival g2 r gs y x"
    and "onmessage g3 r gs cs = Inr (g4, ch4)" and "failsSurvival g3 r gs y x"
  shows "state (g1 ! y ! x) = Num s \<and> age (g1 ! y ! x) = 1
       \<and> state (g2 ! y ! x) = Num s \<and> age (g2 ! y ! x) = 2
       \<and> state (g3 ! y ! x) = Num s \<and> age (g3 ! y ! x) = 3
       \<and> state (g4 ! y ! x) = Num 0 \<and> age (g4 ! y ! x) = 0"
proof -
  note wf0 = assms(3)
  have wf1: "wellFormed g1 gs" using onmessage_result(2) [OF wf0 assms(9)] .
  have wf2: "wellFormed g2 gs" using onmessage_result(2) [OF wf1 assms(11)] .
  have wf3: "wellFormed g3 gs" using onmessage_result(2) [OF wf2 assms(13)] .
  have c1: "state (g1 ! y ! x) = Num s \<and> age (g1 ! y ! x) = 1"
    using trail_step [OF wf0 assms(4,5,1,6,7,10,9)] assms(2,6,8) by simp
  then have s1: "state (g1 ! y ! x) = Num s" by simp
  have c2: "state (g2 ! y ! x) = Num s \<and> age (g2 ! y ! x) = 2"
    using trail_step [OF wf1 assms(4,5,1) s1 assms(7,12,11)] assms(2) c1 by simp
  then have s2: "state (g2 ! y ! x) = Num s" by simp
  have c3: "state (g3 ! y ! x) = Num s \<and> age (g3 ! y ! x) = 3"
    using trail_step [OF wf2 assms(4,5,1) s2 assms(7,14,13)] assms(2) c2 by simp
  then have s3: "state (g3 ! y ! x) = Num s" by simp
  have c4: "state (g4 ! y ! x) = Num 0 \<and> age (g4 ! y ! x) = 0"
    using trail_step [OF wf3 assms(4,5,1) s3 assms(7,16,15)] assms(2) c3 by simp
  from c1 c2 c3 c4 show ?thesis by simp
qed

theorem trail_clears_after_trailLength_steps_witness:
  "trailEffect (defaultColorScheme\<lparr>trailEffect := True, trailLength := 3\<rparr>)
   \<and> trailLength (defaultColorScheme\<lparr>trailEffect := True, trailLength := 3\<rparr>) = 3
   \<and> wellFormed [[cellOf 1 0 False]] \<lparr>cols = 1, rows = 1\<rparr>
   \<and> onmessage [[cellOf 1 0 False]] (defaultRules\<lparr>wrapping := False\<rparr>) \<lparr>cols = 1, rows = 1\<rparr>
        (defaultColorScheme\<lparr>trailEffect := True, trailLength := 3\<rparr>)
      = Inr ([[cellOf 1 1 True]], [(0, 0)])
   \<and> onmessage [[cellOf 1 1 True]] (defaultRules\<lparr>wrapping := False\<rparr>) \<lparr>cols = 1, rows = 1\<rparr>
        (defaultColorScheme\<lparr>trailEffect := True, trailLength := 3\<rparr>)
      = Inr ([[cellOf 1 2 True]], [(0, 0)])
   \<and> onmessage [[cellOf 1 2 True]] (defaultRules\<lparr>wrapping := False\<rparr>) \<lparr>cols = 1, rows = 1\<rparr>
        (defaultColorScheme\<lparr>trailEffect := True, trailLength := 3\<rparr>)
      = Inr ([[cellOf 1 3 True]], [(0, 0)])
   \<and> onmessage [[cellOf 1 3 True]] (defaultRules\<lparr>wrapping := False\<rparr>) \<lparr>cols = 1, rows = 1\<rparr>
        (defaultColorScheme\<lparr>trailEffect := True, trailLength := 3\<rparr>)
      = Inr ([[cellOf 0 0 True]], [(0, 0)])
   \<and> failsSurvival [[cellOf 1 0 False]] (defaultRules\<lparr>wrapping := False\<rparr>)
        \<lparr>cols = 1, rows = 1\<rparr> 0 0
   \<and> failsSurvival [[cellOf 1 1 True]] (defaultRules\<lparr>wrapping := False\<rparr>)
        \<lparr>cols = 1, rows = 1\<rparr> 0 0
   \<and> failsSurvival [[cellOf 1 2 True]] (defaultRules\<lparr>wrapping := False\<rparr>)
        \<lparr>cols = 1, rows = 1\<rparr> 0 0
   \<and> failsSurvival [[cellOf 1 3 True]] (defaultRules\<lparr>wrapping := False\<rparr>)
        \<lparr>cols = 1, rows = 1\<rparr> 0 0
   \<and> state ([[cellOf 1 3 True]] ! 0 ! 0) = Num 1 \<and> age ([[cellOf 1 3 True]] ! 0 ! 0) = 3
   \<and> state ([[cellOf 0 0 True]] ! 0 ! 0) = Num 0 \<and> age ([[cellOf 0 0 True]] ! 0 ! 0) = 0"
  using trail_clears_after_trailLength_steps [of
      "defaultColorScheme\<lparr>trailEffect := True, trailLength := 3\<rparr>"
      "[[cellOf 1 0 False]]" "\<lparr>cols = 1, rows = 1\<rparr>" 0 0 1
      "defaultRules\<lparr>wrapping := False\<rparr>"
      "[[cellOf 1 1 True]]" "[(0, 0)]" "[[cellOf 1 2 True]]" "[(0, 0)]"
      "[[cellOf 1 3 True]]" "[(0, 0)]" "[[cellOf 0 0 True]]" "[(0, 0)]"]
  by (simp add: trail_eval)

text \<open>
  The claim as stated fails. A lone live cell of age 0 has no neighbour, so it dies
  at the first step: it has state 1 and age 1 after one step and is cleared after
  four, one tick before the claim clears it. A lone live cell of age 4 is cleared
  by the very step in which it dies.
\<close>

theorem trail_clears_before_tick_T_plus_4:
  "runGenerations 1 [[cellOf 1 0 False]] (defaultRules\<lparr>wrapping := False\<rparr>)
     \<lparr>cols = 1, rows = 1\<rparr> (defaultColorScheme\<lparr>trailEffect := True, trailLength := 3\<rparr>)
   = Inr [[cellOf 1 1 True]]
   \<and> runGenerations 4 [[cellOf 1 0 False]] (defaultRules\<lparr>wrapping := False\<rparr>)
     \<lparr>cols = 1, rows = 1\<rparr> (defaultColorScheme\<lparr>trailEffect := True, trailLength := 3\<rparr>)
   = Inr [[cellOf 0 0 True]]
   \<and> runGenerations 1 [[cellOf 1 4 False]] (defaultRules\<lparr>wrapping := False\<rparr>)
     \<lparr>cols = 1, rows = 1\<rparr> (defaultColorScheme\<lparr>trailEffect := True, trailLength := 3\<rparr>)
   = Inr [[cellOf 0 0 True]]"
  by (simp add: trail_eval eval_nat_numeral)

text \<open>
  C7. The handlers that edit one cell. The claim has an edit outside the grid raise an
  error; the handlers guard the write with a bounds test and, outside the grid, return
  normally with the grid as it was. Amended: a click while panning, a mouse-down that
  is a pan gesture (right button or ctrl key) or that comes while the simulation runs,
  and a click or a mouse-down outside \<open>[0, rows) \<times> [0, cols)\<close> are ignored: no error is
  raised and the grid is unchanged. Otherwise, inside a \<open>rows \<times> cols\<close> grid, the handler
  sets the state of that cell (the click to the next state of the cycle
  \<open>(state + 1) % (states + 1)\<close>, the mouse-down to 1 on a cell of state 0 and to 0
  otherwise), resets its age to 0, marks it changed and leaves every other cell as it
  was.
\<close>

theorem edit_out_of_bounds_is_ignored:
  "(isPanning \<or> \<not> (0 \<le> x \<and> x < int (cols gs) \<and> 0 \<le> y \<and> y < int (rows gs)) \<longrightarrow>
      handleCanvasClick isPanning g gs r x y = Inr g)
   \<and> (panGesture \<or> isRunning \<or> \<not> (0 \<le> x \<and> x < int (cols gs) \<and> 0 \<le> y \<and> y < int (rows gs)) \<longrightarrow>
      handleCanvasMouseDown panGesture isRunning g gs x y = Inr g)
   \<and> (wellFormed g gs \<and> 0 \<le> x \<and> x < int (cols gs) \<and> 0 \<le> y \<and> y < int (rows gs) \<longrightarrow>
            (\<not> isPanning \<longrightarrow>
              (\<exists>g'. handleCanvasClick isPanning g gs r x y = Inr g' \<and> wellFormed g' gs
               \<and> (\<forall>b < rows gs. \<forall>a < cols gs. g' ! b ! a =
                     (if int b = y \<and> int a = x
                      then (g ! b ! a)\<lparr>state := clickState (state (g ! b ! a)) (states r),
                                        age := 0, changed := True\<rparr>
                      else g ! b ! a))))
          \<and> (\<not> panGesture \<and> \<not> isRunning \<longrightarrow>
              (\<exists>g'. handleCanvasMouseDown panGesture isRunning g gs x y = Inr g' \<and> wellFormed g' gs
               \<and> (\<forall>b < rows gs. \<forall>a < cols gs. g' ! b ! a =
                     (if int b = y \<and> int a = x
                      then (g ! b ! a)\<lparr>state := (if state (g ! b ! a) = Num 0 then Num 1 else Num 0),
                                        age := 0, changed := True\<rparr>
                      else g ! b ! a)))))"
proof -
  have at: "cellAt g y x = Some (g ! nat y ! nat x)"
    if "wellFormed g gs" and "0 \<le> x \<and> x < int (cols gs) \<and> 0 \<le> y \<and> y < int (rows gs)"
    using cellAt_wellFormed [OF that(1)] that(2) by simp
  have nth: "updateCell g (nat y) (nat x) f ! b ! a =
             (if int b = y \<and> int a = x then f (g ! b ! a) else g ! b ! a)"
    if "wellFormed g gs" and inb: "0 \<le> x \<and> x < int (cols gs) \<and> 0 \<le> y \<and> y < int (rows gs)"
      and "b < rows gs" and "a < cols gs" for f b a
  proof -
    have "b < length g" "a < length (g ! b)"
      using that by (simp_all add: wellFormed_def)
    then show ?thesis
      using inb by (auto simp: updateCell_nth)
  qed
  let ?click = "\<lambda>nc. nc\<lparr>state := clickState (state (g ! nat y ! nat x)) (states r),
                         age := 0, changed := True\<rparr>"
  let ?down = "\<lambda>nc. nc\<lparr>state := (if state (g ! nat y ! nat x) = Num 0 then Num 1 else Num 0),
                         age := 0, changed := True\<rparr>"
  show ?thesis
  proof (intro conjI impI)
    assume "isPanning \<or> \<not> (0 \<le> x \<and> x < int (cols gs) \<and> 0 \<le> y \<and> y < int (rows gs))"
    then show "handleCanvasClick isPanning g gs r x y = Inr g"
      by (auto simp: handleCanvasClick_def)
  next
    assume "panGesture \<or> isRunning \<or> \<not> (0 \<le> x \<and> x < int (cols gs) \<and> 0 \<le> y \<and> y < int (rows gs))"
    then show "handleCanvasMouseDown panGesture isRunning g gs x y = Inr g"
      by (auto simp: handleCanvasMouseDown_def)
  next
    assume "wellFormed g gs \<and> 0 \<le> x \<and> x < int (cols gs) \<and> 0 \<le> y \<and> y < int (rows gs)"
    then have wf: "wellFormed g gs" and inb: "0 \<le> x \<and> x < int (cols gs) \<and> 0 \<le> y \<and> y < int (rows gs)"
      by simp_all
    assume mode: "\<not> isPanning"
    have "handleCanvasClick isPanning g gs r x y = Inr (updateCell g (nat y) (nat x) ?click)"
      using inb at [OF wf inb] mode by (simp add: handleCanvasClick_def)
    moreover have "\<forall>b < rows gs. \<forall>a < cols gs. updateCell g (nat y) (nat x) ?click ! b ! a =
        (if int b = y \<and> int a = x
         then (g ! b ! a)\<lparr>state := clickState (state (g ! b ! a)) (states r), age := 0, changed := True\<rparr>
         else g ! b ! a)"
      by (auto simp: nth [OF wf inb])
    ultimately show "\<exists>g'. handleCanvasClick isPanning g gs r x y = Inr g' \<and> wellFormed g' gs
        \<and> (\<forall>b < rows gs. \<forall>a < cols gs. g' ! b ! a =
              (if int b = y \<and> int a = x
               then (g ! b ! a)\<lparr>state := clickState (state (g ! b ! a)) (states r),
                                 age := 0, changed := True\<rparr>
               else g ! b ! a))"
      using wellFormed_updateCell [OF wf] by blast
  next
    assume "wellFormed g gs \<and> 0 \<le> x \<and> x < int (cols gs) \<and> 0 \<le> y \<and> y < int (rows gs)"
    then have wf: "wellFormed g gs" and inb: "0 \<le> x \<and> x < int (cols gs) \<and> 0 \<le> y \<and> y < int (rows gs)"
      by simp_all
    assume mode: "\<not> panGesture \<and> \<not> isRunning"
    have "handleCanvasMouseDown panGesture isRunning g gs x y
        = Inr (updateCell g (nat y) (nat x) ?down)"
      using inb at [OF wf inb] mode by (simp add: handleCanvasMouseDown_def)
    moreover have "\<forall>b < rows gs. \<forall>a < cols gs. updateCell g (nat y) (nat x) ?down ! b ! a =
        (if int b = y \<and> int a = x
         then (g ! b ! a)\<lparr>state := (if state (g ! b ! a) = Num 0 then Num 1 else Num 0),
                           age := 0, changed := True\<rparr>
         else g ! b ! a)"
      by (auto simp: nth [OF wf inb])
    ultimately show "\<exists>g'. handleCanvasMouseDown panGesture isRunning g gs x y = Inr g'
        \<and> wellFormed g' gs
        \<and> (\<forall>b < rows gs. \<forall>a < cols gs. g' ! b ! a =
              (if int b = y \<and> int a = x
               then (g ! b ! a)\<lparr>state := (if state (g ! b ! a) = Num 0 then Num 1 else Num 0),
                                 age := 0, changed := True\<rparr>
               else g ! b ! a))"
      using wellFormed_updateCell [OF wf] by blast
  qed
qed

theorem edit_out_of_bounds_is_ignored_witness:
  "wellFormed [[cellOf 0 0 False, cellOf 1 2 False]] \<lparr>cols = 2, rows = 1\<rparr>
   \<and> handleCanvasClick False [[cellOf 0 0 False, cellOf 1 2 False]] \<lparr>cols = 2, rows = 1\<rparr>
       (defaultRules\<lparr>states := 3\<rparr>) 2 0 = Inr [[cellOf 0 0 False, cellOf 1 2 False]]
   \<and> handleCanvasClick False [[cellOf 0 0 False, cellOf 1 2 False]] \<lparr>cols = 2, rows = 1\<rparr>
       (defaultRules\<lparr>states := 3\<rparr>) 1 0 = Inr [[cellOf 0 0 False, cellOf 2 0 True]]
   \<and> handleCanvasMouseDown False False [[cellOf 0 0 False, cellOf 1 2 False]]
       \<lparr>cols = 2, rows = 1\<rparr> 1 0 = Inr [[cellOf 0 0 False, cellOf 0 0 True]]
   \<and> handleCanvasClick True [[cellOf 0 0 False, cellOf 1 2 False]] \<lparr>cols = 2, rows = 1\<rparr>
       (defaultRules\<lparr>states := 3\<rparr>) 1 0 = Inr [[cellOf 0 0 False, cellOf 1 2 False]]
   \<and> handleCanvasMouseDown False True [[cellOf 0 0 False, cellOf 1 2 False]]
       \<lparr>cols = 2, rows = 1\<rparr> 1 0 = Inr [[cellOf 0 0 False, cellOf 1 2 False]]"
  using edit_out_of_bounds_is_ignored [where g = "[[cellOf 0 0 False, cellOf 1 2 False]]"
      and gs = "\<lparr>cols = 2, rows = 1\<rparr>" and x = 2 and y = 0
      and r = "defaultRules\<lparr>states := 3\<rparr>"
      and isPanning = False and panGesture = False and isRunning = False]
    edit_out_of_bounds_is_ignored [where g = "[[cellOf 0 0 False, cellOf 1 2 False]]"
      and gs = "\<lparr>cols = 2, rows = 1\<rparr>" and x = 1 and y = 0
      and r = "defaultRules\<lparr>states := 3\<rparr>"
      and isPanning = False and panGesture = False and isRunning = False]
    edit_out_of_bounds_is_ignored [where g = "[[cellOf 0 0 False, cellOf 1 2 False]]"
      and gs = "\<lparr>cols = 2, rows = 1\<rparr>" and x = 1 and y = 0
      and r = "defaultRules\<lparr>states := 3\<rparr>"
      and isPanning = True and panGesture = False and isRunning = True]
  by (simp add: wellFormed_def handleCanvasClick_def handleCanvasMouseDown_def cellAt_def
      updateCell_def clickState_def js_rem_def cellOf_def defaultRules_def)

text \<open>
  The claim as stated fails: at \<open>row = rows\<close> and at \<open>col = -1\<close> both handlers return
  normally, with the grid as it was.
\<close>

theorem edit_out_of_bounds_raises_no_error:
  "handleCanvasClick False [[cellOf 0 0 False, cellOf 1 2 False]] \<lparr>cols = 2, rows = 1\<rparr>
     defaultRules 0 1 = Inr [[cellOf 0 0 False, cellOf 1 2 False]]
   \<and> handleCanvasClick False [[cellOf 0 0 False, cellOf 1 2 False]] \<lparr>cols = 2, rows = 1\<rparr>
     defaultRules (- 1) 0 = Inr [[cellOf 0 0 False, cellOf 1 2 False]]
   \<and> handleCanvasMouseDown False False [[cellOf 0 0 False, cellOf 1 2 False]]
     \<lparr>cols = 2, rows = 1\<rparr> 0 1 = Inr [[cellOf 0 0 False, cellOf 1 2 False]]
   \<and> handleCanvasMouseDown False False [[cellOf 0 0 False, cellOf 1 2 False]]
     \<lparr>cols = 2, rows = 1\<rparr> (- 1) 0 = Inr [[cellOf 0 0 False, cellOf 1 2 False]]"
  by (simp add: handleCanvasClick_def handleCanvasMouseDown_def)








end
